theory Spec2Isabelle
  imports Complex_Main "HOL-Library.Multiset"
begin

section \<open>JavaScript values and property lookup\<close>

text \<open>
  The engine is one JavaScript module, \<^verbatim>\<open>server.js\<close>. Its configuration
  tables are object literals read with \<^verbatim>\<open>table[key]\<close>. Such a read
  finds the table's own entries and, for the names every object inherits from
  \<^verbatim>\<open>Object.prototype\<close>, an inherited function or object (a truthy
  value that has none of the fields the engine goes on to read); for every other key it
  yields \<^verbatim>\<open>undefined\<close>.

  A value that may be \<^verbatim>\<open>undefined\<close> is an \<open>option\<close>;
  \<open>to_key\<close> is the string JavaScript makes of it as a property key or inside a
  template literal.
\<close>

datatype js_error = TypeError | RangeError

definition object_prototype_keys :: "string list" where
  "object_prototype_keys =
     [''constructor'', ''__defineGetter__'', ''__defineSetter__'', ''hasOwnProperty'',
      ''__lookupGetter__'', ''__lookupSetter__'', ''isPrototypeOf'',
      ''propertyIsEnumerable'', ''toString'', ''valueOf'', ''__proto__'',
      ''toLocaleString'']"

datatype 'a js_prop = Own 'a | Inherited | Absent

definition js_get :: "(string \<times> 'a) list \<Rightarrow> string \<Rightarrow> 'a js_prop" where
  "js_get obj key =
     (case map_of obj key of
        Some v \<Rightarrow> Own v
      | None \<Rightarrow> if key \<in> set object_prototype_keys then Inherited else Absent)"

definition to_key :: "string option \<Rightarrow> string" where
  "to_key v = (case v of None \<Rightarrow> ''undefined'' | Some s \<Rightarrow> s)"

text \<open>
  \<^verbatim>\<open>arr[i]\<close> for an integral \<open>i\<close>: the element, or
  \<^verbatim>\<open>undefined\<close> outside the array.
\<close>

definition js_index :: "'a list \<Rightarrow> int \<Rightarrow> 'a option" where
  "js_index arr i = (if 0 \<le> i \<and> i < int (length arr) then Some (arr ! nat i) else None)"

text \<open>
  \<^verbatim>\<open>xs.find(p)\<close> followed by assignments to fields of the object
  found: the first element that satisfies \<open>p\<close> is updated where it stands.
\<close>

fun mutate_first :: "('a \<Rightarrow> bool) \<Rightarrow> ('a \<Rightarrow> 'a) \<Rightarrow> 'a list \<Rightarrow> 'a list" where
  "mutate_first p f [] = []"
| "mutate_first p f (x # xs) = (if p x then f x # xs else x # mutate_first p f xs)"

section \<open>The record store\<close>

text \<open>
  The four collections of \<^verbatim>\<open>db.data\<close>. A timestamp is the number of
  milliseconds since the epoch: the code stores \<^verbatim>\<open>toISOString()\<close>
  texts and compares them as strings, which for the years 0000 to 9999 (fixed width,
  zero padded) is the order of the instants. Counters are natural numbers. User
  attributes are the two properties the composer reads; the stored
  \<^verbatim>\<open>JSON.stringify\<close> text of a journey's properties is kept as the
  attributes themselves.
\<close>

record attrs =
  a_name :: "string option"
  a_region :: "string option"

record journey_row =
  j_id :: string
  j_user_id :: string
  j_event_type :: string
  j_event_time :: int
  j_properties :: attrs
  j_check_at :: int
  j_checked :: bool

record experiment_row =
  e_id :: string
  e_user_id :: string
  e_cohort :: string
  e_timing :: "string option"
  e_channel :: "string option"
  e_lever :: "string option"
  e_offer :: "string option"
  e_tone :: "string option"
  e_message :: string
  e_created_at :: int
  e_sent_at :: "int option"
  e_opened_at :: "int option"
  e_converted_at :: "int option"
  e_status :: string

record scheduled_row =
  m_id :: string
  m_experiment_id :: string
  m_user_id :: string
  m_send_at :: int
  m_status :: string

record stat_row =
  s_combo_key :: string
  s_timing :: "string option"
  s_channel :: "string option"
  s_lever :: "string option"
  s_offer :: "string option"
  s_sent_count :: nat
  s_converted_count :: nat
  s_last_updated :: int

record db =
  experiments :: "experiment_row list"
  combo_stats :: "stat_row list"
  scheduled_messages :: "scheduled_row list"
  user_journey :: "journey_row list"

definition defaultData :: db where
  "defaultData =
     \<lparr>experiments = [], combo_stats = [], scheduled_messages = [], user_journey = []\<rparr>"

section \<open>Combination statistics\<close>

text \<open>
  The key built at both call sites:
  the template literal \<^verbatim>\<open>${experiment.timing}|${experiment.channel}|${experiment.lever}|${experiment.offer}\<close>.
\<close>

definition comboKey_of :: "experiment_row \<Rightarrow> string" where
  "comboKey_of ex =
     to_key (e_timing ex) @ ''|'' @ to_key (e_channel ex) @ ''|'' @
     to_key (e_lever ex) @ ''|'' @ to_key (e_offer ex)"

text \<open>
  \<^verbatim>\<open>updateComboStats(comboKey, experiment, converted)\<close>; \<open>now\<close> is
  the clock reading written to \<^verbatim>\<open>last_updated\<close>.
\<close>

definition updateComboStats :: "int \<Rightarrow> string \<Rightarrow> experiment_row \<Rightarrow> bool \<Rightarrow> db \<Rightarrow> db" where
  "updateComboStats now comboKey ex converted d =
     (case find (\<lambda>s. s_combo_key s = comboKey) (combo_stats d) of
        Some stats \<Rightarrow>
          d\<lparr>combo_stats :=
              mutate_first (\<lambda>s. s_combo_key s = comboKey)
                (\<lambda>s. s\<lparr>s_sent_count := s_sent_count s + 1,
                        s_converted_count :=
                          (if converted then s_converted_count s + 1 else s_converted_count s),
                        s_last_updated := now\<rparr>)
                (combo_stats d)\<rparr>
      | None \<Rightarrow>
          d\<lparr>combo_stats :=
              combo_stats d @
              [\<lparr>s_combo_key = comboKey,
                s_timing = e_timing ex, s_channel = e_channel ex,
                s_lever = e_lever ex, s_offer = e_offer ex,
                s_sent_count = 1,
                s_converted_count = (if converted then 1 else 0),
                s_last_updated = now\<rparr>]\<rparr>)"

section \<open>Conversion check\<close>

text \<open>
  \<^verbatim>\<open>user_journey.filter(j => j.user_id === userId && j.event_type === ty && !j.checked).forEach(j => j.checked = true)\<close>.
\<close>

definition mark_checked :: "string \<Rightarrow> string \<Rightarrow> journey_row list \<Rightarrow> journey_row list" where
  "mark_checked userId ty js =
     map (\<lambda>j. if j_user_id j = userId \<and> j_event_type j = ty \<and> \<not> j_checked j
               then j\<lparr>j_checked := True\<rparr> else j) js"

text \<open>
  The experiment \<^verbatim>\<open>checkForConversion\<close> picks, as its position in
  \<^verbatim>\<open>db.data.experiments\<close>: the user's experiments with status
  \<^verbatim>\<open>sent\<close> or \<^verbatim>\<open>opened\<close>, sorted by creation time
  descending (the sort is stable), first element.
\<close>

definition conversion_candidate :: "string \<Rightarrow> experiment_row list \<Rightarrow> nat option" where
  "conversion_candidate userId es =
     (case sort_key (\<lambda>i. - e_created_at (es ! i))
             (filter (\<lambda>i. e_user_id (es ! i) = userId \<and>
                            e_status (es ! i) \<in> set [''sent'', ''opened''])
                [0..<length es]) of
        [] \<Rightarrow> None
      | i # _ \<Rightarrow> Some i)"

definition checkForConversion :: "int \<Rightarrow> string \<Rightarrow> string \<Rightarrow> db \<Rightarrow> db" where
  "checkForConversion now userId eventType d =
     (let d1 = (if eventType = ''trial_initiated''
                then d\<lparr>user_journey := mark_checked userId ''trial_paywall_view'' (user_journey d)\<rparr>
                else d)
      in if eventType = ''trial_activated'' then
           (let d2 = d1\<lparr>user_journey := mark_checked userId ''trial_initiated'' (user_journey d1)\<rparr>
            in case conversion_candidate userId (experiments d2) of
                 None \<Rightarrow> d2
               | Some i \<Rightarrow>
                   (let ex = (experiments d2 ! i)\<lparr>e_converted_at := Some now,
                                                 e_status := ''converted''\<rparr>;
                        d3 = d2\<lparr>experiments := (experiments d2)[i := ex]\<rparr>
                    in updateComboStats now (comboKey_of ex) ex True d3))
         else d1)"

section \<open>Configuration tables\<close>

text \<open>
  \<^verbatim>\<open>eventConfig\<close>: an event type either waits for a follow-up
  (\<^verbatim>\<open>waitForEvent\<close>, \<^verbatim>\<open>timeout\<close> in
  milliseconds, \<^verbatim>\<open>cohortIfMissing\<close>) or triggers at once
  (\<^verbatim>\<open>immediate\<close>, \<^verbatim>\<open>cohort\<close>).
\<close>

datatype event_rule = Waits string int string | Immediate string

definition eventConfig :: "(string \<times> event_rule) list" where
  "eventConfig =
     [(''trial_paywall_view'', Waits ''trial_initiated'' (30 * 60 * 1000) ''paywall_bouncers''),
      (''trial_initiated'', Waits ''trial_activated'' (10 * 60 * 1000) ''checkout_abandoners''),
      (''payment_failed'', Immediate ''payment_failed'')]"

text \<open>
  \<^verbatim>\<open>frameworks.timing.delays\<close>; \<open>None\<close> is the
  \<^verbatim>\<open>null\<close> of the three named timings.
\<close>

definition delays :: "(string \<times> int option) list" where
  "delays =
     [(''2min'', Some (2 * 60 * 1000)),
      (''5min'', Some (5 * 60 * 1000)),
      (''30min'', Some (30 * 60 * 1000)),
      (''1hr'', Some (60 * 60 * 1000)),
      (''2hr'', Some (2 * 60 * 60 * 1000)),
      (''4hr'', Some (4 * 60 * 60 * 1000)),
      (''next_morning'', None),
      (''next_evening'', None),
      (''payday'', None)]"


record intelligence =
  i_timing :: "string list"
  i_channel :: "string list"
  i_lever :: "string list"
  i_offer :: "string list"
  i_tone :: "string list"

definition checkout_abandoners :: intelligence where
  "checkout_abandoners =
     \<lparr>i_timing = [''2min'', ''1hr'', ''2hr''],
      i_channel = [''whatsapp'', ''push''],
      i_lever = [''scarcity'', ''fomo'', ''loss_aversion''],
      i_offer = [''discount_50'', ''rupee_1_trial'', ''free_episode''],
      i_tone = [''urgent'', ''curious'']\<rparr>"

definition payment_failed :: intelligence where
  "payment_failed =
     \<lparr>i_timing = [''2min'', ''5min'', ''30min''],
      i_channel = [''whatsapp'', ''sms''],
      i_lever = [''reciprocity'', ''personalization'', ''free_value''],
      i_offer = [''rupee_1_trial'', ''paytm_cashback''],
      i_tone = [''friendly'', ''personal'']\<rparr>"

definition paywall_bouncers :: intelligence where
  "paywall_bouncers =
     \<lparr>i_timing = [''1hr'', ''2hr'', ''next_evening''],
      i_channel = [''push'', ''whatsapp''],
      i_lever = [''free_value'', ''social_proof'', ''cliffhanger''],
      i_offer = [''free_episode'', ''extended_preview''],
      i_tone = [''curious'', ''friendly'']\<rparr>"

definition cohortIntelligence :: "(string \<times> intelligence) list" where
  "cohortIntelligence =
     [(''checkout_abandoners'', checkout_abandoners),
      (''payment_failed'', payment_failed),
      (''paywall_bouncers'', paywall_bouncers)]"

definition messageTemplates :: "(string \<times> string list) list" where
  "messageTemplates =
     [(''scarcity'', [''Only {hours} hours left!'', ''Offer expires soon'', ''Limited time only'']),
      (''fomo'', [''{count} people watching right now'', ''Trending in {region}'',
                  ''Everyone'' @ [CHR 0x27] @ ''s talking about this'']),
      (''social_proof'', [''Rated 4.8 by 10K viewers'', ''Join 1 lakh+ subscribers'',
                          ''Top rated in {region}'']),
      (''free_value'', [''FREE episode waiting'', ''On us - no strings attached'',
                        ''Your free gift inside'']),
      (''reciprocity'', [''We saved your spot'', ''Your show is waiting'',
                         ''We kept it ready for you'']),
      (''cliffhanger'', [''Did she find out the truth?'',
                         ''You won'' @ [CHR 0x27] @ ''t believe what happens next'',
                         ''The twist is coming'']),
      (''personalization'', [''Picked just for you, {name}'', ''Based on what you love'',
                             ''Your personalized pick''])]"

text \<open>
  Texts outside ASCII are kept as their UTF-8 bytes: the rupee sign of two offer
  messages and the four emoji of the tone renderings.
\<close>

definition rupee :: string where
  "rupee = [CHR 0xE2, CHR 0x82, CHR 0xB9]"

definition alarm_clock :: string where
  "alarm_clock = [CHR 0xE2, CHR 0x8F, CHR 0xB0]"

definition waving_hand :: string where
  "waving_hand = [CHR 0xF0, CHR 0x9F, CHR 0x91, CHR 0x8B]"

definition thinking_face :: string where
  "thinking_face = [CHR 0xF0, CHR 0x9F, CHR 0xA4, CHR 0x94]"

definition clapper_board :: string where
  "clapper_board = [CHR 0xF0, CHR 0x9F, CHR 0x8E, CHR 0xAC]"

definition offerMessages :: "(string \<times> string) list" where
  "offerMessages =
     [(''free_episode'', ''Watch Episode 1 FREE''),
      (''discount_50'', ''50% OFF today only''),
      (''rupee_1_trial'', ''Just '' @ rupee @ ''1 to start''),
      (''paytm_cashback'', ''Get '' @ rupee @ ''50 Paytm cashback''),
      (''no_offer'', ''Continue your journey'')]"

section \<open>Combination selector\<close>

text \<open>
  Every \<^verbatim>\<open>Math.random()\<close> call site has a draw of its own, a real
  number; the language promises \<open>0 \<le> r < 1\<close>. Products and quotients are exact:
  the rounding of the doubles is not modelled (it moves no index out of its array, and
  it leaves the order of two conversion rates as it is while the sent counts stay below
  \<open>2 ^ 26\<close>).
\<close>

definition randomFrom :: "real \<Rightarrow> 'a list \<Rightarrow> 'a option" where
  "randomFrom r arr = js_index arr \<lfloor>r * real (length arr)\<rfloor>"

record combo =
  c_timing :: "string option"
  c_channel :: "string option"
  c_lever :: "string option"
  c_offer :: "string option"
  c_tone :: "string option"

record select_draws =
  r_explore :: real
  r_pick :: real
  r_timing :: real
  r_channel :: real
  r_lever :: real
  r_offer :: real
  r_tone :: real

text \<open>
  \<^verbatim>\<open>cohortIntelligence[cohort] || cohortIntelligence.checkout_abandoners\<close>.
  \<open>None\<close> is the inherited value a cohort named like a property of
  \<^verbatim>\<open>Object.prototype\<close> resolves to: truthy, so the fallback is not
  taken, and without any of the five value sets.
\<close>

definition intelligence_of :: "string \<Rightarrow> intelligence option" where
  "intelligence_of cohort =
     (case js_get cohortIntelligence cohort of
        Own i \<Rightarrow> Some i
      | Absent \<Rightarrow> Some checkout_abandoners
      | Inherited \<Rightarrow> None)"

text \<open>\<^verbatim>\<open>intelligence.tone || ['friendly']\<close>\<close>

definition tone_set :: "string \<Rightarrow> string list" where
  "tone_set cohort =
     (case intelligence_of cohort of Some i \<Rightarrow> i_tone i | None \<Rightarrow> [''friendly''])"

definition cvr :: "stat_row \<Rightarrow> real" where
  "cvr s = (if s_sent_count s > 0 then real (s_converted_count s) / real (s_sent_count s) else 0)"

text \<open>
  \<^verbatim>\<open>db.data.combo_stats.filter(s => s.sent_count >= 5).map(...).sort((a, b) => b.cvr - a.cvr)\<close>:
  the eligible rows by conversion rate descending; the sort is stable.
\<close>

definition ranked_stats :: "db \<Rightarrow> stat_row list" where
  "ranked_stats d = sort_key (\<lambda>s. - cvr s) (filter (\<lambda>s. s_sent_count s \<ge> 5) (combo_stats d))"

definition selectCombo :: "select_draws \<Rightarrow> string \<Rightarrow> db \<Rightarrow> js_error + combo" where
  "selectCombo rs cohort d =
     (let stats = ranked_stats d;
          explore = (r_explore rs < 0.2);
          tone = randomFrom (r_tone rs) (tone_set cohort)
      in if \<not> explore \<and> length stats > 0 then
           (let topCombos = take 5 stats
            in case js_index topCombos \<lfloor>r_pick rs * real (length topCombos)\<rfloor> of
                 None \<Rightarrow> Inl TypeError
               | Some selected \<Rightarrow>
                   Inr \<lparr>c_timing = s_timing selected, c_channel = s_channel selected,
                        c_lever = s_lever selected, c_offer = s_offer selected,
                        c_tone = tone\<rparr>)
         else
           (case intelligence_of cohort of
              None \<Rightarrow> Inl TypeError
            | Some i \<Rightarrow>
                Inr \<lparr>c_timing = randomFrom (r_timing rs) (i_timing i),
                     c_channel = randomFrom (r_channel rs) (i_channel i),
                     c_lever = randomFrom (r_lever rs) (i_lever i),
                     c_offer = randomFrom (r_offer rs) (i_offer i),
                     c_tone = tone\<rparr>))"

section \<open>Message composer\<close>

text \<open>
  \<^verbatim>\<open>str.replace(pattern, replacement)\<close> with a string pattern: the first
  occurrence is replaced, and in the replacement text \<^verbatim>\<open>$$\<close> stands
  for a dollar sign, \<^verbatim>\<open>$&\<close> for the matched text, and a dollar sign
  before a backquote or an apostrophe for the text before or after the match.
\<close>

fun split_at_first :: "string \<Rightarrow> string \<Rightarrow> (string \<times> string) option" where
  "split_at_first pat [] = (if pat = [] then Some ([], []) else None)"
| "split_at_first pat (c # cs) =
     (if take (length pat) (c # cs) = pat then Some ([], drop (length pat) (c # cs))
      else map_option (\<lambda>(preceding, following). (c # preceding, following)) (split_at_first pat cs))"

fun get_substitution :: "string \<Rightarrow> string \<Rightarrow> string \<Rightarrow> string \<Rightarrow> string" where
  "get_substitution matched preceding following [] = []"
| "get_substitution matched preceding following [c] = [c]"
| "get_substitution matched preceding following (c # d # ds) =
     (if c = CHR ''$'' \<and> d = CHR ''$'' then CHR ''$'' # get_substitution matched preceding following ds
      else if c = CHR ''$'' \<and> d = CHR ''&'' then matched @ get_substitution matched preceding following ds
      else if c = CHR ''$'' \<and> d = CHR 0x60 then preceding @ get_substitution matched preceding following ds
      else if c = CHR ''$'' \<and> d = CHR 0x27 then following @ get_substitution matched preceding following ds
      else c # get_substitution matched preceding following (d # ds))"

definition js_replace :: "string \<Rightarrow> string \<Rightarrow> string \<Rightarrow> string" where
  "js_replace pat replacement str =
     (case split_at_first pat str of
        None \<Rightarrow> str
      | Some (preceding, following) \<Rightarrow>
          preceding @ get_substitution pat preceding following replacement @ following)"

text \<open>The decimal text of an integer, as a number is printed into a string.\<close>

fun digits :: "nat \<Rightarrow> string" where
  "digits n =
     (if n < 10 then [''0123456789'' ! n]
      else digits (n div 10) @ [''0123456789'' ! (n mod 10)])"

definition show_int :: "int \<Rightarrow> string" where
  "show_int i = (if i < 0 then ''-'' @ digits (nat (- i)) else digits (nat i))"

text \<open>
  The text an inherited value prints as inside a template literal: the source text of a
  built-in function, which carries the name of the function (\<^verbatim>\<open>Object\<close> for
  the one found under \<^verbatim>\<open>constructor\<close>, the property name for the others), or
  \<^verbatim>\<open>[object Object]\<close> for the prototype object itself.
\<close>

definition inherited_text :: "string \<Rightarrow> string" where
  "inherited_text key =
     (if key = ''__proto__'' then ''[object Object]''
      else if key = ''constructor'' then ''function Object() { [native code] }''
      else ''function '' @ key @ ''() { [native code] }'')"

record message_draws =
  r_template :: real
  r_count :: real
  r_hours :: real

text \<open>
  \<^verbatim>\<open>randomFrom(messageTemplates[combo.lever] || ["Check out Stage"])\<close>.
  An inherited value has no elements, so the template drawn from it is
  \<^verbatim>\<open>undefined\<close>.
\<close>

definition chosen_template :: "message_draws \<Rightarrow> combo \<Rightarrow> string option" where
  "chosen_template rs c =
     (case js_get messageTemplates (to_key (c_lever c)) of
        Own leverTemplates \<Rightarrow> randomFrom (r_template rs) leverTemplates
      | Absent \<Rightarrow> randomFrom (r_template rs) [''Check out Stage'']
      | Inherited \<Rightarrow> None)"

text \<open>\<^verbatim>\<open>offerMessages[combo.offer] || "Start watching"\<close>\<close>

definition offerMsg_of :: "combo \<Rightarrow> string" where
  "offerMsg_of c =
     (case js_get offerMessages (to_key (c_offer c)) of
        Own m \<Rightarrow> m
      | Absent \<Rightarrow> ''Start watching''
      | Inherited \<Rightarrow> inherited_text (to_key (c_offer c)))"

text \<open>\<^verbatim>\<open>userAttributes.name || 'there'\<close>: an empty text is falsy too.\<close>

definition or_default :: "string option \<Rightarrow> string \<Rightarrow> string" where
  "or_default v dflt = (case v of None \<Rightarrow> dflt | Some s \<Rightarrow> if s = [] then dflt else s)"

definition fill_template :: "message_draws \<Rightarrow> attrs \<Rightarrow> string \<Rightarrow> string" where
  "fill_template rs userAttributes template =
     js_replace ''{hours}'' (show_int (\<lfloor>r_hours rs * 4\<rfloor> + 2))
       (js_replace ''{count}'' (show_int (\<lfloor>r_count rs * 5000\<rfloor> + 1000))
          (js_replace ''{region}'' (or_default (a_region userAttributes) ''your city'')
             (js_replace ''{name}'' (or_default (a_name userAttributes) ''there'') template)))"

definition generateMessage :: "message_draws \<Rightarrow> combo \<Rightarrow> attrs \<Rightarrow> js_error + string" where
  "generateMessage rs c userAttributes =
     (let offerMsg = offerMsg_of c
      in case chosen_template rs c of
           None \<Rightarrow> Inl TypeError
         | Some t \<Rightarrow>
             (let template = fill_template rs userAttributes t
              in Inr (if c_tone c = Some ''urgent'' then
                        alarm_clock @ '' '' @ template @ ''! '' @ offerMsg @ '' - hurry!''
                      else if c_tone c = Some ''friendly'' then
                        ''Hey! '' @ waving_hand @ '' '' @ template @ ''. '' @ offerMsg
                      else if c_tone c = Some ''curious'' then
                        thinking_face @ '' '' @ template @ ''... '' @ offerMsg
                      else if c_tone c = Some ''regional'' then
                        clapper_board @ '' Apne liye kuch khaas! '' @ offerMsg
                      else template @ ''. '' @ offerMsg)))"

section \<open>Experiment factory\<close>

text \<open>
  Dates are set in local time. The language reads the local clock through the offset of
  local time from UTC at an instant, \<^verbatim>\<open>LocalTZA(t, true)\<close>, and turns a
  local time back into an instant through \<^verbatim>\<open>LocalTZA(t, false)\<close>, the
  offset in force at that local time (the one before the change for a local time that a
  daylight-saving change skips or repeats). A zone is these two functions, in
  milliseconds. \<open>Day\<close>, \<open>TimeWithinDay\<close>, \<open>MakeTime\<close>, \<open>MakeDate\<close>,
  \<open>LocalTime\<close> and \<open>UTC\<close> are the operations of the language on time values;
  all instants stay inside the range of valid dates.
\<close>

record zone =
  z_offset_at :: "int \<Rightarrow> int"
  z_offset_of_local :: "int \<Rightarrow> int"

definition msPerDay :: int where
  "msPerDay = 86400000"

definition Day :: "int \<Rightarrow> int" where
  "Day t = t div msPerDay"

definition TimeWithinDay :: "int \<Rightarrow> int" where
  "TimeWithinDay t = t mod msPerDay"

definition MakeTime :: "int \<Rightarrow> int \<Rightarrow> int \<Rightarrow> int \<Rightarrow> int" where
  "MakeTime hour minute sec ms = hour * 3600000 + minute * 60000 + sec * 1000 + ms"

definition MakeDate :: "int \<Rightarrow> int \<Rightarrow> int" where
  "MakeDate day time = day * msPerDay + time"

definition LocalTime :: "zone \<Rightarrow> int \<Rightarrow> int" where
  "LocalTime z t = t + z_offset_at z t"

definition UTC :: "zone \<Rightarrow> int \<Rightarrow> int" where
  "UTC z t = t - z_offset_of_local z t"

text \<open>
  \<^verbatim>\<open>target.setHours(hour, minute, 0, 0)\<close>: the given time of day on the
  local date of the instant.
\<close>

definition setHours :: "zone \<Rightarrow> int \<Rightarrow> int \<Rightarrow> int \<Rightarrow> int" where
  "setHours z t hour minute = UTC z (MakeDate (Day (LocalTime z t)) (MakeTime hour minute 0 0))"

text \<open>
  \<^verbatim>\<open>target.setDate(target.getDate() + 1)\<close>: the local date is moved to
  the next day of the calendar (the day of the month plus one, carried into the next
  month where it must be, is the day after), and the local time of day is kept.
\<close>

definition setDate_next :: "zone \<Rightarrow> int \<Rightarrow> int" where
  "setDate_next z t =
     (let local = LocalTime z t
      in UTC z (MakeDate (Day local + 1) (TimeWithinDay local)))"

text \<open>\<^verbatim>\<open>getNextTime(hour, minute)\<close>; \<open>now\<close> is its clock reading.\<close>

definition getNextTime :: "zone \<Rightarrow> int \<Rightarrow> int \<Rightarrow> int \<Rightarrow> int" where
  "getNextTime z now hour minute =
     (let target = setHours z now hour minute
      in if target \<le> now then setDate_next z target else target)"

text \<open>
  The send time of lines 419 to 430. An inherited \<^verbatim>\<open>delay\<close> is truthy
  and no number: \<^verbatim>\<open>Date.now() + delay\<close> is then a text, the date made of
  it is invalid, and \<^verbatim>\<open>sendAt.toISOString()\<close> throws a RangeError.
\<close>

definition sendAt_of :: "zone \<Rightarrow> int \<Rightarrow> string option \<Rightarrow> js_error + int" where
  "sendAt_of z now timing =
     (let delay = js_get delays (to_key timing)
      in if (case delay of Own (Some ms) \<Rightarrow> ms \<noteq> 0 | Own None \<Rightarrow> False
                         | Inherited \<Rightarrow> True | Absent \<Rightarrow> False) then
           (case delay of Own (Some ms) \<Rightarrow> Inr (now + ms) | _ \<Rightarrow> Inl RangeError)
         else if timing = Some ''next_morning'' then Inr (getNextTime z now 8 0)
         else if timing = Some ''next_evening'' then Inr (getNextTime z now 19 0)
         else Inr (now + 60000))"

text \<open>
  What one call reads from outside the store: the clock (one reading for the
  synchronous stretch of a call), the zone of the local clock, the two
  \<^verbatim>\<open>uuidv4()\<close> values and the random draws.
\<close>

record env =
  env_now :: int
  env_zone :: zone
  env_uuid1 :: string
  env_uuid2 :: string
  env_select :: select_draws
  env_message :: message_draws

text \<open>
  The two shapes \<^verbatim>\<open>createExperiment\<close> returns: the stored experiment
  found by the dedup check, or \<^verbatim>\<open>{ id, combo, message, sendAt }\<close>.
\<close>

datatype create_result = Existing experiment_row | Created string combo string int

fun result_id :: "create_result \<Rightarrow> string" where
  "result_id (Existing ex) = e_id ex"
| "result_id (Created i c m t) = i"

text \<open>
  \<^verbatim>\<open>createExperiment(userId, cohort, userAttributes)\<close>. The store is
  returned in every case: an exception leaves what was pushed before it.
\<close>

definition createExperiment ::
    "env \<Rightarrow> string \<Rightarrow> string \<Rightarrow> attrs \<Rightarrow> db \<Rightarrow> db \<times> (js_error + create_result)" where
  "createExperiment en userId cohort userAttributes d =
     (let oneHourAgo = env_now en - 60 * 60 * 1000
      in case find (\<lambda>e. e_user_id e = userId \<and> e_cohort e = cohort \<and> e_created_at e > oneHourAgo)
                (experiments d) of
           Some recent \<Rightarrow> (d, Inr (Existing recent))
         | None \<Rightarrow>
             (let experimentId = env_uuid1 en
              in case selectCombo (env_select en) cohort d of
                   Inl err \<Rightarrow> (d, Inl err)
                 | Inr c \<Rightarrow>
                     (case generateMessage (env_message en) c userAttributes of
                        Inl err \<Rightarrow> (d, Inl err)
                      | Inr message \<Rightarrow>
                          (let ex = \<lparr>e_id = experimentId, e_user_id = userId, e_cohort = cohort,
                                     e_timing = c_timing c, e_channel = c_channel c,
                                     e_lever = c_lever c, e_offer = c_offer c, e_tone = c_tone c,
                                     e_message = message, e_created_at = env_now en,
                                     e_sent_at = None, e_opened_at = None,
                                     e_converted_at = None, e_status = ''pending''\<rparr>;
                               d1 = d\<lparr>experiments := experiments d @ [ex]\<rparr>
                           in case sendAt_of (env_zone en) (env_now en) (c_timing c) of
                                Inl err \<Rightarrow> (d1, Inl err)
                              | Inr sendAt \<Rightarrow>
                                  (d1\<lparr>scheduled_messages := scheduled_messages d1 @
                                        [\<lparr>m_id = env_uuid2 en, m_experiment_id = experimentId,
                                          m_user_id = userId, m_send_at = sendAt,
                                          m_status = ''pending''\<rparr>]\<rparr>,
                                   Inr (Created experimentId c message sendAt))))))"

section \<open>Journey tracker\<close>

text \<open>
  One event of the body of \<^verbatim>\<open>POST /webhook/amplitude\<close>, and the body
  of the loop that handles it. The result carries the exception that ends the request,
  if one is thrown.
\<close>

record event =
  ev_event_type :: string
  ev_user_id :: "string option"
  ev_device_id :: "string option"
  ev_properties :: "attrs option"

definition truthy :: "string option \<Rightarrow> bool" where
  "truthy v = (case v of None \<Rightarrow> False | Some s \<Rightarrow> s \<noteq> [])"

definition handle_event :: "env \<Rightarrow> event \<Rightarrow> db \<Rightarrow> db \<times> js_error option" where
  "handle_event en ev d =
     (let eventType = ev_event_type ev;
          userId = (if truthy (ev_user_id ev) then ev_user_id ev else ev_device_id ev);
          properties = (case ev_properties ev of Some p \<Rightarrow> p
                        | None \<Rightarrow> \<lparr>a_name = None, a_region = None\<rparr>)
      in if \<not> truthy userId then (d, None)
         else
           (let d1 = checkForConversion (env_now en) (the userId) eventType d
            in case js_get eventConfig eventType of
                 Own (Immediate cohort) \<Rightarrow>
                   (case createExperiment en (the userId) cohort properties d1 of
                      (d2, Inl err) \<Rightarrow> (d2, Some err)
                    | (d2, Inr r) \<Rightarrow> (d2, None))
               | Own (Waits waitForEvent timeout cohortIfMissing) \<Rightarrow>
                   (d1\<lparr>user_journey := user_journey d1 @
                         [\<lparr>j_id = env_uuid1 en, j_user_id = the userId,
                           j_event_type = eventType, j_event_time = env_now en,
                           j_properties = properties,
                           j_check_at = env_now en + timeout, j_checked = False\<rparr>]\<rparr>,
                    None)
               | Inherited \<Rightarrow> (d1, None)
               | Absent \<Rightarrow> (d1, None)))"

text \<open>
  The deadline sweep. \<open>pendingChecks\<close> are the positions in
  \<^verbatim>\<open>db.data.user_journey\<close> of the records the filter keeps, at most 100.
  The loop returns the store, the positions it printed
  \<^verbatim>\<open>[ABANDONED]\<close> for (in order), and the exception that ended the run,
  if a call of \<^verbatim>\<open>createExperiment\<close> threw. \<open>envs i\<close> is what that
  call reads for the record at position \<open>i\<close>.
\<close>

definition pendingChecks :: "int \<Rightarrow> db \<Rightarrow> nat list" where
  "pendingChecks now d =
     take 100 (filter (\<lambda>i. j_check_at (user_journey d ! i) \<le> now \<and> \<not> j_checked (user_journey d ! i))
                 [0..<length (user_journey d)])"

definition set_checked :: "nat \<Rightarrow> db \<Rightarrow> db" where
  "set_checked i d = d\<lparr>user_journey := (user_journey d)[i := (user_journey d ! i)\<lparr>j_checked := True\<rparr>]\<rparr>"

definition followUp_of :: "journey_row \<Rightarrow> string \<Rightarrow> db \<Rightarrow> journey_row option" where
  "followUp_of journey waitForEvent d =
     find (\<lambda>j. j_user_id j = j_user_id journey \<and> j_event_type j = waitForEvent \<and>
               j_event_time j > j_event_time journey) (user_journey d)"

fun sweep_loop :: "(nat \<Rightarrow> env) \<Rightarrow> nat list \<Rightarrow> db \<Rightarrow> nat list \<Rightarrow> db \<times> nat list \<times> js_error option" where
  "sweep_loop envs [] d abandoned = (d, abandoned, None)"
| "sweep_loop envs (i # rest) d abandoned =
     (let journey = user_journey d ! i
      in case js_get eventConfig (j_event_type journey) of
           Own (Waits waitForEvent timeout cohortIfMissing) \<Rightarrow>
             (case followUp_of journey waitForEvent d of
                None \<Rightarrow>
                  (case createExperiment (envs i) (j_user_id journey) cohortIfMissing
                          (j_properties journey) d of
                     (d1, Inl err) \<Rightarrow> (d1, abandoned @ [i], Some err)
                   | (d1, Inr r) \<Rightarrow> sweep_loop envs rest (set_checked i d1) (abandoned @ [i]))
              | Some followUp \<Rightarrow> sweep_loop envs rest (set_checked i d) abandoned)
         | Own (Immediate cohort) \<Rightarrow> sweep_loop envs rest d abandoned
         | Inherited \<Rightarrow> sweep_loop envs rest d abandoned
         | Absent \<Rightarrow> sweep_loop envs rest d abandoned)"

definition sweep :: "int \<Rightarrow> (nat \<Rightarrow> env) \<Rightarrow> db \<Rightarrow> db \<times> nat list \<times> js_error option" where
  "sweep now envs d = sweep_loop envs (pendingChecks now d) d []"

section \<open>Delivery\<close>

text \<open>
  \<^verbatim>\<open>sendViaCleverTap\<close>. The two credentials come from the process
  environment; \<open>ct_post url userId message experimentId\<close> stands for the
  \<^verbatim>\<open>axios.post\<close> request and is \<open>Inl\<close> the error message when the
  request throws. The function catches that exception itself and returns in every case.
\<close>

datatype send_result = Mock | Delivered string | Failed string

fun success :: "send_result \<Rightarrow> bool" where
  "success Mock = True"
| "success (Delivered response) = True"
| "success (Failed msg) = False"

record clevertap =
  ct_account_id :: "string option"
  ct_passcode :: "string option"
  ct_post :: "string \<Rightarrow> string \<Rightarrow> string \<Rightarrow> string \<Rightarrow> string + string"

definition endpoints :: "(string \<times> string) list" where
  "endpoints =
     [(''push'', ''https://api.clevertap.com/1/send/push.json''),
      (''whatsapp'', ''https://api.clevertap.com/1/send/whatsapp.json''),
      (''sms'', ''https://api.clevertap.com/1/send/sms.json'')]"

definition endpoint_of :: "string option \<Rightarrow> string" where
  "endpoint_of channel =
     (case js_get endpoints (to_key channel) of
        Own url \<Rightarrow> url
      | Absent \<Rightarrow> ''https://api.clevertap.com/1/send/push.json''
      | Inherited \<Rightarrow> inherited_text (to_key channel))"

definition sendViaCleverTap ::
    "clevertap \<Rightarrow> string \<Rightarrow> string \<Rightarrow> string option \<Rightarrow> string \<Rightarrow> send_result" where
  "sendViaCleverTap ct userId message channel experimentId =
     (if \<not> truthy (ct_account_id ct) \<or> \<not> truthy (ct_passcode ct) then Mock
      else case ct_post ct (endpoint_of channel) userId message experimentId of
             Inr response \<Rightarrow> Delivered response
           | Inl msg \<Rightarrow> Failed msg)"

text \<open>
  The delivery dispatcher. \<open>pendingMessages\<close> are the positions in
  \<^verbatim>\<open>db.data.scheduled_messages\<close> the filter keeps, at most 100;
  \<open>clock k\<close> is the clock reading while the message at position \<open>k\<close> is
  handled. The loop awaits \<^verbatim>\<open>sendViaCleverTap\<close> and does not read what
  it returns; since that call never throws, the \<^verbatim>\<open>catch\<close> of the loop
  body is never entered. The results of the calls are returned beside the store, in
  order, as the trace of the run.
\<close>

definition pendingMessages :: "int \<Rightarrow> db \<Rightarrow> nat list" where
  "pendingMessages now d =
     take 100 (filter (\<lambda>k. m_status (scheduled_messages d ! k) = ''pending'' \<and>
                           m_send_at (scheduled_messages d ! k) \<le> now)
                 [0..<length (scheduled_messages d)])"

fun dispatch_loop ::
    "clevertap \<Rightarrow> (nat \<Rightarrow> int) \<Rightarrow> nat list \<Rightarrow> db \<Rightarrow> send_result list \<Rightarrow> db \<times> send_result list" where
  "dispatch_loop ct clock [] d trace = (d, trace)"
| "dispatch_loop ct clock (k # rest) d trace =
     (let msg = scheduled_messages d ! k
      in case find (\<lambda>e. e_id e = m_experiment_id msg) (experiments d) of
           None \<Rightarrow> dispatch_loop ct clock rest d trace
         | Some ex \<Rightarrow>
             (let sent = sendViaCleverTap ct (m_user_id msg) (e_message ex) (e_channel ex)
                           (m_experiment_id msg);
                  d1 = d\<lparr>scheduled_messages := (scheduled_messages d)[k := msg\<lparr>m_status := ''sent''\<rparr>]\<rparr>;
                  d2 = d1\<lparr>experiments :=
                          mutate_first (\<lambda>e. e_id e = m_experiment_id msg)
                            (\<lambda>e. e\<lparr>e_sent_at := Some (clock k), e_status := ''sent''\<rparr>)
                            (experiments d1)\<rparr>
              in dispatch_loop ct clock rest
                   (updateComboStats (clock k) (comboKey_of ex) ex False d2) (trace @ [sent])))"

definition dispatch :: "int \<Rightarrow> clevertap \<Rightarrow> (nat \<Rightarrow> int) \<Rightarrow> db \<Rightarrow> db \<times> send_result list" where
  "dispatch now ct clock d = dispatch_loop ct clock (pendingMessages now d) d []"

section \<open>Runs of the engine\<close>

text \<open>
  The five entry points that change the store: one webhook event, one run of the
  deadline sweep, one run of the dispatcher, \<^verbatim>\<open>POST /api/trigger\<close>
  (which answers 400 and changes nothing when the user identifier or the cohort is
  empty), and \<^verbatim>\<open>GET /api/experiments\<close>, whose
  \<^verbatim>\<open>db.data.experiments.sort(...)\<close> sorts the stored array where it
  stands, by creation time descending (the sort is stable). Each runs to its end before
  the next starts. \<open>run\<close> also collects the \<^verbatim>\<open>[ABANDONED]\<close> lines of
  the sweeps.
\<close>

datatype action =
    Webhook env event
  | Sweep int "nat \<Rightarrow> env"
  | Dispatch int clevertap "nat \<Rightarrow> int"
  | Trigger env string string attrs
  | Experiments

fun exec :: "action \<Rightarrow> db \<Rightarrow> db \<times> nat list" where
  "exec (Webhook en ev) d = (fst (handle_event en ev d), [])"
| "exec (Sweep now envs) d = (case sweep now envs d of (d1, abandoned, err) \<Rightarrow> (d1, abandoned))"
| "exec (Dispatch now ct clock) d = (fst (dispatch now ct clock d), [])"
| "exec (Trigger en userId cohort userAttributes) d =
     (if userId = [] \<or> cohort = [] then (d, [])
      else (fst (createExperiment en userId cohort userAttributes d), []))"
| "exec Experiments d =
     (d\<lparr>experiments := sort_key (\<lambda>e. - e_created_at e) (experiments d)\<rparr>, [])"

fun run :: "action list \<Rightarrow> db \<Rightarrow> db \<times> nat list" where
  "run [] d = (d, [])"
| "run (p # ps) d =
     (case exec p d of (d1, log1) \<Rightarrow> (case run ps d1 of (d2, log2) \<Rightarrow> (d2, log1 @ log2)))"

section \<open>Concrete runs\<close>

text \<open>
  Inputs of the concrete runs below: draws that skip exploration and pick every first
  element, a clock at the epoch in UTC, and a delivery adapter whose credentials are set
  and whose request fails.
\<close>

definition utc_zone :: zone where
  "utc_zone = \<lparr>z_offset_at = (\<lambda>t. 0), z_offset_of_local = (\<lambda>t. 0)\<rparr>"

definition first_draws :: select_draws where
  "first_draws =
     \<lparr>r_explore = 1 / 2, r_pick = 0, r_timing = 0, r_channel = 0, r_lever = 0,
      r_offer = 0, r_tone = 0\<rparr>"

definition first_message_draws :: message_draws where
  "first_message_draws = \<lparr>r_template = 0, r_count = 0, r_hours = 0\<rparr>"

definition env0 :: env where
  "env0 =
     \<lparr>env_now = 0, env_zone = utc_zone, env_uuid1 = ''e1'', env_uuid2 = ''m1'',
      env_select = first_draws, env_message = first_message_draws\<rparr>"

definition no_attrs :: attrs where
  "no_attrs = \<lparr>a_name = None, a_region = None\<rparr>"

definition failing_adapter :: clevertap where
  "failing_adapter =
     \<lparr>ct_account_id = Some ''account'', ct_passcode = Some ''passcode'',
      ct_post = (\<lambda>url userId message experimentId. Inl ''timeout'')\<rparr>"

text \<open>
  The store after \<^verbatim>\<open>POST /api/trigger\<close> for user \<open>u1\<close> and cohort
  \<open>checkout_abandoners\<close> on the empty store: one pending experiment with timing
  \<open>2min\<close> and its scheduled message, due at 120000.
\<close>

definition st_pending :: db where
  "st_pending = fst (run [Trigger env0 ''u1'' ''checkout_abandoners'' no_attrs] defaultData)"

text \<open>The same store after a dispatcher run at 200000.\<close>

definition st_sent :: db where
  "st_sent = fst (run [Dispatch 200000 failing_adapter (\<lambda>k. 200001)] st_pending)"

text \<open>
  Events of user \<open>u1\<close>, environments that differ in the clock reading and the
  identifiers handed out, and the stores of four journeys: a paywall view waiting for its
  deadline; the same after the sweep 31 minutes later; a paywall view recorded in the
  same millisecond as a trial start that was delivered before it; and a paywall view
  still unresolved beside a later trial start.
\<close>

definition activated :: event where
  "activated =
     \<lparr>ev_event_type = ''trial_activated'', ev_user_id = Some ''u1'', ev_device_id = None,
      ev_properties = None\<rparr>"

definition paywall_view :: event where
  "paywall_view =
     \<lparr>ev_event_type = ''trial_paywall_view'', ev_user_id = Some ''u1'', ev_device_id = None,
      ev_properties = None\<rparr>"

definition initiated :: event where
  "initiated =
     \<lparr>ev_event_type = ''trial_initiated'', ev_user_id = Some ''u1'', ev_device_id = None,
      ev_properties = None\<rparr>"

definition env_at :: "int \<Rightarrow> string \<Rightarrow> string \<Rightarrow> env" where
  "env_at t uuid1 uuid2 = env0\<lparr>env_now := t, env_uuid1 := uuid1, env_uuid2 := uuid2\<rparr>"

definition sweep_envs :: "int \<Rightarrow> nat \<Rightarrow> env" where
  "sweep_envs t i = env_at t (''e'' @ digits i) (''m'' @ digits i)"

definition st_waiting :: db where
  "st_waiting = fst (run [Webhook (env_at 0 ''j0'' []) paywall_view] defaultData)"

definition st_abandoned :: db where
  "st_abandoned = fst (run [Sweep 1860000 (sweep_envs 1860000)] st_waiting)"

definition later_runs :: "action list" where
  "later_runs =
     [Sweep 1920000 (sweep_envs 1920000),
      Webhook (env_at 1930000 ''j1'' []) paywall_view,
      Sweep 9920000 (sweep_envs 9920000)]"

definition st_out_of_order :: db where
  "st_out_of_order =
     fst (run [Webhook (env_at 0 ''j0'' []) initiated,
               Webhook (env_at 0 ''j1'' []) paywall_view] defaultData)"

definition st_followed_up :: db where
  "st_followed_up =
     \<lparr>experiments = [], combo_stats = [], scheduled_messages = [],
      user_journey =
        [\<lparr>j_id = ''j0'', j_user_id = ''u1'', j_event_type = ''trial_paywall_view'',
          j_event_time = 0, j_properties = no_attrs, j_check_at = 1800000, j_checked = False\<rparr>,
         \<lparr>j_id = ''j1'', j_user_id = ''u1'', j_event_type = ''trial_initiated'',
          j_event_time = 1, j_properties = no_attrs, j_check_at = 600001, j_checked = True\<rparr>]\<rparr>"

text \<open>
  A store with seven statistics rows: six with ten sends each and one to six
  conversions, and one below the sample threshold. \<open>exploit_draws\<close> skip exploration
  and pick the last of the top five.
\<close>

definition stat :: "string \<Rightarrow> string \<Rightarrow> string \<Rightarrow> string \<Rightarrow> nat \<Rightarrow> nat \<Rightarrow> stat_row" where
  "stat timing channel lever offer sent converted =
     \<lparr>s_combo_key = timing @ ''|'' @ channel @ ''|'' @ lever @ ''|'' @ offer,
      s_timing = Some timing, s_channel = Some channel, s_lever = Some lever,
      s_offer = Some offer, s_sent_count = sent, s_converted_count = converted,
      s_last_updated = 0\<rparr>"

definition st_seven_stats :: db where
  "st_seven_stats =
     defaultData\<lparr>combo_stats :=
       [stat ''2min'' ''push'' ''scarcity'' ''free_episode'' 10 1,
        stat ''5min'' ''push'' ''fomo'' ''discount_50'' 10 6,
        stat ''30min'' ''sms'' ''social_proof'' ''rupee_1_trial'' 10 3,
        stat ''1hr'' ''whatsapp'' ''free_value'' ''paytm_cashback'' 10 5,
        stat ''2hr'' ''push'' ''reciprocity'' ''no_offer'' 10 2,
        stat ''4hr'' ''sms'' ''cliffhanger'' ''free_episode'' 10 4,
        stat ''payday'' ''push'' ''personalization'' ''discount_50'' 4 4]\<rparr>"

definition exploit_draws :: select_draws where
  "exploit_draws = first_draws\<lparr>r_pick := 9 / 10\<rparr>"

text \<open>
  The four components of a combination that the statistics are keyed by (the tone left
  out), and a combination with the scarcity lever and the 50 percent offer whose tone the
  statements below set.
\<close>

definition components :: "combo \<Rightarrow> string option \<times> string option \<times> string option \<times> string option" where
  "components c = (c_timing c, c_channel c, c_lever c, c_offer c)"


text \<open>
  A zone one hour ahead of UTC that puts its clocks forward by one hour at 01:00 UTC of
  the first day of the epoch, when they show 02:00: the local times from 02:00 to 03:00 of
  that day are skipped, and read with the offset before the change.
\<close>

definition summer_zone :: zone where
  "summer_zone =
     \<lparr>z_offset_at = (\<lambda>t. if t < 3600000 then 3600000 else 7200000),
      z_offset_of_local = (\<lambda>t. if t < 10800000 then 3600000 else 7200000)\<rparr>"

text \<open>
  The store after \<^verbatim>\<open>POST /api/trigger\<close> for five users and cohort
  \<open>checkout_abandoners\<close> on the empty store and a dispatcher run at 200000 without
  credentials (every send is a mock send): five
  experiments with one combination, sent, and its statistics row with five sends.
\<close>

text \<open>
  An environment in that zone, at the epoch (01:00 on the local clock), whose draws pick
  the third timing of a cohort.
\<close>

definition evening_env :: env where
  "evening_env = env0\<lparr>env_zone := summer_zone, env_select := first_draws\<lparr>r_timing := 9 / 10\<rparr>\<rparr>"

definition mock_adapter :: clevertap where
  "mock_adapter =
     \<lparr>ct_account_id = None, ct_passcode = None,
      ct_post = (\<lambda>url userId message experimentId. Inl ''not configured'')\<rparr>"

definition five_triggers :: "action list" where
  "five_triggers =
     map (\<lambda>n. Trigger (env_at 0 (''e'' @ digits n) (''m'' @ digits n)) (''u'' @ digits n)
                 ''checkout_abandoners'' no_attrs) [1, 2, 3, 4, 5]"

definition st_five_sends :: db where
  "st_five_sends =
     fst (run (five_triggers @ [Dispatch 200000 mock_adapter (\<lambda>k. 200001)]) defaultData)"

section \<open>The send-time rule\<close>

text \<open>
  The rule the specification gives for the send time, in its words: a timing with a fixed
  offset in the lookup table yields now plus that offset; \<open>next_morning\<close> and
  \<open>next_evening\<close> yield the next occurrence of 08:00 and of 19:00 local, rolled to
  the following day if that time of day has already passed today; any other timing value
  yields now plus one minute. \<open>today_at\<close> and \<open>tomorrow_at\<close> are the instants
  read off the local clock for the hour on the local date of \<open>now\<close> and on the day
  after.
\<close>

definition fixed_offset :: "string option \<Rightarrow> int option" where
  "fixed_offset timing =
     (case timing of
        None \<Rightarrow> None
      | Some t \<Rightarrow> (case map_of delays t of Some (Some ms) \<Rightarrow> Some ms | _ \<Rightarrow> None))"

definition today_at :: "zone \<Rightarrow> int \<Rightarrow> int \<Rightarrow> int" where
  "today_at z now hour = UTC z (MakeDate (Day (LocalTime z now)) (MakeTime hour 0 0 0))"

definition tomorrow_at :: "zone \<Rightarrow> int \<Rightarrow> int \<Rightarrow> int" where
  "tomorrow_at z now hour = UTC z (MakeDate (Day (LocalTime z now) + 1) (MakeTime hour 0 0 0))"

definition next_occurrence :: "zone \<Rightarrow> int \<Rightarrow> int \<Rightarrow> int" where
  "next_occurrence z now hour =
     (if today_at z now hour \<le> now then tomorrow_at z now hour else today_at z now hour)"

definition scheduled_time :: "zone \<Rightarrow> int \<Rightarrow> string option \<Rightarrow> int" where
  "scheduled_time z now timing =
     (case fixed_offset timing of
        Some ms \<Rightarrow> now + ms
      | None \<Rightarrow>
          if timing = Some ''next_morning'' then next_occurrence z now 8
          else if timing = Some ''next_evening'' then next_occurrence z now 19
          else now + 60000)"

text \<open>
  The local clock shows the hour on the date of \<open>now\<close> and on the day after: neither
  local time falls into an hour that a change of the clocks skips.
\<close>

definition on_the_clock :: "zone \<Rightarrow> int \<Rightarrow> int \<Rightarrow> bool" where
  "on_the_clock z now hour =
     (LocalTime z (today_at z now hour) = MakeDate (Day (LocalTime z now)) (MakeTime hour 0 0 0) \<and>
      LocalTime z (tomorrow_at z now hour) =
        MakeDate (Day (LocalTime z now) + 1) (MakeTime hour 0 0 0))"

definition day_part_hour :: "string option \<Rightarrow> int option" where
  "day_part_hour timing =
     (if timing = Some ''next_morning'' then Some 8
      else if timing = Some ''next_evening'' then Some 19 else None)"

definition target_on_clock :: "zone \<Rightarrow> int \<Rightarrow> string option \<Rightarrow> bool" where
  "target_on_clock z now timing =
     (case day_part_hour timing of None \<Rightarrow> True | Some hour \<Rightarrow> on_the_clock z now hour)"

text \<open>
  The timing values the engine itself can produce: the lists of the cohort table, and
  \<^verbatim>\<open>undefined\<close> (a draw outside the array). No request field reaches a
  timing; \<open>timings_known\<close> says that the stored experiments and statistics rows
  hold no other.
\<close>

definition cohort_timings :: "string list" where
  "cohort_timings = concat (map (\<lambda>(cohort, i). i_timing i) cohortIntelligence)"

definition known_timing :: "string option \<Rightarrow> bool" where
  "known_timing timing = (case timing of None \<Rightarrow> True | Some t \<Rightarrow> t \<in> set cohort_timings)"

definition timings_known :: "db \<Rightarrow> bool" where
  "timings_known d =
     (list_all (\<lambda>e. known_timing (e_timing e)) (experiments d) \<and>
      list_all (\<lambda>s. known_timing (s_timing s)) (combo_stats d))"

section \<open>Relations between stores\<close>

text \<open>
  The relations the proofs carry through the loops. A statistics row keeps its key and its
  counts never decrease; a journey record changes in nothing but its
  \<^verbatim>\<open>checked\<close> flag, and that only from false to true; both collections
  only grow at the end. \<open>abandons d i\<close> is the test the sweep makes for the record at
  position \<open>i\<close>: its event type waits for a follow-up and the search for one finds
  nothing.
\<close>

definition rows_grow :: "stat_row list \<Rightarrow> stat_row list \<Rightarrow> bool" where
  "rows_grow xs ys =
     (length xs \<le> length ys \<and>
      list_all2 (\<lambda>x y. s_combo_key y = s_combo_key x \<and> s_sent_count x \<le> s_sent_count y \<and>
                        s_converted_count x \<le> s_converted_count y) xs (take (length xs) ys))"

definition counts_ok :: "stat_row list \<Rightarrow> bool" where
  "counts_ok xs = list_all (\<lambda>s. s_converted_count s \<le> s_sent_count s) xs"

definition journeys_same :: "journey_row list \<Rightarrow> journey_row list \<Rightarrow> bool" where
  "journeys_same xs ys = list_all2 (\<lambda>x y. y = x \<or> y = x\<lparr>j_checked := True\<rparr>) xs ys"

definition journeys_grow :: "journey_row list \<Rightarrow> journey_row list \<Rightarrow> bool" where
  "journeys_grow xs ys = (length xs \<le> length ys \<and> journeys_same xs (take (length xs) ys))"

definition abandons :: "db \<Rightarrow> nat \<Rightarrow> bool" where
  "abandons d i =
     (case js_get eventConfig (j_event_type (user_journey d ! i)) of
        Own (Waits waitForEvent timeout cohortIfMissing) \<Rightarrow>
          followUp_of (user_journey d ! i) waitForEvent d = None
      | Own (Immediate cohort) \<Rightarrow> False
      | Inherited \<Rightarrow> False
      | Absent \<Rightarrow> False)"

definition sweep_post :: "db \<Rightarrow> nat list \<Rightarrow> nat list \<Rightarrow> db \<times> nat list \<times> js_error option \<Rightarrow> bool" where
  "sweep_post d todo ab0 res =
     (case res of (d1, ab, err) \<Rightarrow>
        journeys_same (user_journey d) (user_journey d1) \<and>
        combo_stats d1 = combo_stats d \<and>
        (\<exists>k\<le>length todo. ab = ab0 @ filter (abandons d) (take k todo) \<and>
                           (err = None \<longrightarrow> k = length todo)) \<and>
        (err = None \<longrightarrow> (\<forall>i\<in>set todo. abandons d i \<longrightarrow> j_checked (user_journey d1 ! i))))"

definition store_grows :: "db \<Rightarrow> db \<Rightarrow> bool" where
  "store_grows d d' =
     (rows_grow (combo_stats d) (combo_stats d') \<and>
      (counts_ok (combo_stats d) \<longrightarrow> counts_ok (combo_stats d')) \<and>
      journeys_grow (user_journey d) (user_journey d'))"

section \<open>Searching and updating lists\<close>

lemma find_append_None:
  "find P xs = None \<Longrightarrow> find P (xs @ ys) = find P ys"
  by (induction xs) (auto split: if_splits)

lemma find_Some_props:
  "find P xs = Some x \<Longrightarrow> x \<in> set xs \<and> P x"
  by (induction xs) (auto split: if_splits)

lemma find_mutate_first_same:
  "(\<And>x. p (f x) = p x) \<Longrightarrow> find p (mutate_first p f xs) = map_option f (find p xs)"
  by (induction xs) auto

section \<open>Conversion and the statistics (C1)\<close>

text \<open>
  What one call of \<^verbatim>\<open>updateComboStats\<close> does to the row of its key, in
  every store: an existing row gets one more send, and one more conversion when the flag
  is set; a missing row is created with one send.
\<close>

lemma updateComboStats_existing_row:
  assumes "find (\<lambda>s. s_combo_key s = key) (combo_stats d) = Some row"
  shows "find (\<lambda>s. s_combo_key s = key) (combo_stats (updateComboStats now key ex converted d)) =
           Some (row\<lparr>s_sent_count := s_sent_count row + 1,
                      s_converted_count := (if converted then s_converted_count row + 1
                                            else s_converted_count row),
                      s_last_updated := now\<rparr>)"
proof -
  let ?f = "\<lambda>s. s\<lparr>s_sent_count := s_sent_count s + 1,
                   s_converted_count := (if converted then s_converted_count s + 1 else s_converted_count s),
                   s_last_updated := now\<rparr>"
  have "find (\<lambda>s. s_combo_key s = key) (mutate_first (\<lambda>s. s_combo_key s = key) ?f (combo_stats d)) =
          map_option ?f (find (\<lambda>s. s_combo_key s = key) (combo_stats d))"
    by (rule find_mutate_first_same) simp
  then show ?thesis using assms by (simp add: updateComboStats_def)
qed

lemma updateComboStats_new_row:
  assumes "find (\<lambda>s. s_combo_key s = key) (combo_stats d) = None"
  shows "\<exists>row. find (\<lambda>s. s_combo_key s = key) (combo_stats (updateComboStats now key ex converted d)) = Some row \<and>
           s_sent_count row = 1 \<and> s_converted_count row = (if converted then 1 else 0)"
  using assms by (simp add: updateComboStats_def find_append_None)

text \<open>
  C1 says that when the conversion resolver marks an experiment converted, the ComboStat
  of its combination key gets \<open>converted_count + 1\<close> and keeps its
  \<open>sent_count\<close>. In \<open>st_sent\<close> the experiment of user \<open>u1\<close> has
  been sent once and its row counts one send and no conversion. After
  \<^verbatim>\<open>checkForConversion\<close> for a \<open>trial_activated\<close> event of that
  user the row counts two sends and one conversion:
  \<^verbatim>\<open>updateComboStats\<close> adds one to \<open>sent_count\<close> on every call,
  also on the call that records the conversion.
\<close>

theorem conversion_counts_a_second_send:
  "map (\<lambda>s. (s_combo_key s, s_sent_count s, s_converted_count s)) (combo_stats st_sent) =
     [(''2min|whatsapp|scarcity|discount_50'', 1, 0)] \<and>
   map (\<lambda>e. (e_user_id e, e_status e)) (experiments st_sent) = [(''u1'', ''sent'')] \<and>
   map (\<lambda>e. (e_user_id e, e_status e))
     (experiments (checkForConversion 300000 ''u1'' ''trial_activated'' st_sent)) =
     [(''u1'', ''converted'')] \<and>
   map (\<lambda>s. (s_combo_key s, s_sent_count s, s_converted_count s))
     (combo_stats (checkForConversion 300000 ''u1'' ''trial_activated'' st_sent)) =
     [(''2min|whatsapp|scarcity|discount_50'', 2, 1)]"
  by code_simp

section \<open>Delivery failure (C2)\<close>

text \<open>
  The store a dispatcher run leaves does not depend on the delivery adapter: two adapters
  that answer differently lead to the same store.
\<close>

lemma dispatch_loop_ignores_adapter:
  "fst (dispatch_loop ct clock ks d trace) = fst (dispatch_loop ct' clock ks d trace')"
proof (induction ks arbitrary: d trace trace')
  case Nil
  then show ?case by simp
next
  case (Cons k rest)
  show ?case
  proof (cases "find (\<lambda>e. e_id e = m_experiment_id (scheduled_messages d ! k)) (experiments d)")
    case None
    then show ?thesis using Cons.IH by simp
  next
    case (Some ex)
    then show ?thesis using Cons.IH by (simp add: Let_def)
  qed
qed

lemma dispatch_ignores_adapter:
  "fst (dispatch now ct clock d) = fst (dispatch now ct' clock d)"
  unfolding dispatch_def by (rule dispatch_loop_ignores_adapter)

text \<open>
  C2 says that a scheduled send whose delivery call fails is still pending after the
  dispatcher run, that its experiment keeps its status and \<open>sent_at\<close>, and that
  \<open>sent_count\<close> is not incremented. In \<open>st_pending\<close> one send is due; the
  adapter returns a failure for it (the trace of the run is that one failure), and after
  the run the send and the experiment have status \<open>sent\<close>, \<open>sent_at\<close> is
  set and the row of the combination counts one send: the dispatcher does not read what
  \<^verbatim>\<open>sendViaCleverTap\<close> returns.
\<close>

theorem failed_delivery_is_marked_sent:
  "map (\<lambda>m. (m_status m, m_send_at m)) (scheduled_messages st_pending) = [(''pending'', 120000)] \<and>
   map (\<lambda>e. (e_status e, e_sent_at e)) (experiments st_pending) = [(''pending'', None)] \<and>
   combo_stats st_pending = [] \<and>
   (case dispatch 200000 failing_adapter (\<lambda>k. 200001) st_pending of
      (d, trace) \<Rightarrow>
        (map success trace, map m_status (scheduled_messages d),
         map (\<lambda>e. (e_status e, e_sent_at e)) (experiments d),
         map s_sent_count (combo_stats d))) =
     ([False], [''sent''], [(''sent'', Some 200001)], [1])"
  by code_simp

section \<open>Stores only grow\<close>

lemma rows_grow_refl: "rows_grow xs xs"
  by (simp add: rows_grow_def list_all2_same)

lemma rows_grow_trans: "rows_grow xs ys \<Longrightarrow> rows_grow ys zs \<Longrightarrow> rows_grow xs zs"
  unfolding rows_grow_def list_all2_conv_all_nth
  by (auto simp: min_def) (metis order_trans less_le_trans)+

lemma rows_grow_append: "rows_grow xs (xs @ ys)"
  by (simp add: rows_grow_def list_all2_same)

lemma rows_grow_mutate_first:
  assumes "\<And>x. s_combo_key (f x) = s_combo_key x \<and> s_sent_count x \<le> s_sent_count (f x) \<and> s_converted_count x \<le> s_converted_count (f x)"
  shows "rows_grow xs (mutate_first p f xs)"
proof -
  have len: "length (mutate_first p f xs) = length xs" by (induction xs) auto
  have "list_all2 (\<lambda>x y. s_combo_key y = s_combo_key x \<and> s_sent_count x \<le> s_sent_count y \<and>
                        s_converted_count x \<le> s_converted_count y) xs (mutate_first p f xs)"
    by (induction xs) (auto simp: assms list_all2_same)
  then show ?thesis by (simp add: rows_grow_def len)
qed

lemma counts_ok_mutate_first:
  assumes "counts_ok xs" "\<And>x. s_converted_count x \<le> s_sent_count x \<Longrightarrow> s_converted_count (f x) \<le> s_sent_count (f x)"
  shows "counts_ok (mutate_first p f xs)"
  using assms(1) by (induction xs) (auto simp: counts_ok_def assms(2))

lemma updateComboStats_frame:
  "experiments (updateComboStats now key ex conv d) = experiments d"
  "scheduled_messages (updateComboStats now key ex conv d) = scheduled_messages d"
  "user_journey (updateComboStats now key ex conv d) = user_journey d"
  by (simp_all add: updateComboStats_def split: option.splits)

lemma updateComboStats_grow:
  "rows_grow (combo_stats d) (combo_stats (updateComboStats now key ex conv d))"
  by (auto simp: updateComboStats_def rows_grow_append intro!: rows_grow_mutate_first split: option.splits)

lemma updateComboStats_ok:
  "counts_ok (combo_stats d) \<Longrightarrow> counts_ok (combo_stats (updateComboStats now key ex conv d))"
  by (auto simp: updateComboStats_def counts_ok_def[of "_ @ _"] intro!: counts_ok_mutate_first split: option.splits)
     (simp add: counts_ok_def)

lemma checkForConversion_stats:
  "combo_stats (checkForConversion now u ty d) = combo_stats d \<or>
   (\<exists>key ex d'. combo_stats d' = combo_stats d \<and>
      combo_stats (checkForConversion now u ty d) = combo_stats (updateComboStats now key ex True d'))"
proof (cases "ty = ''trial_activated''")
  case False
  then show ?thesis by (simp add: checkForConversion_def)
next
  case True
  define d2 where "d2 = d\<lparr>user_journey := mark_checked u ''trial_initiated'' (user_journey d)\<rparr>"
  have eq: "checkForConversion now u ty d =
     (case conversion_candidate u (experiments d2) of
        None \<Rightarrow> d2
      | Some i \<Rightarrow>
          updateComboStats now
            (comboKey_of ((experiments d2 ! i)\<lparr>e_converted_at := Some now, e_status := ''converted''\<rparr>))
            ((experiments d2 ! i)\<lparr>e_converted_at := Some now, e_status := ''converted''\<rparr>) True
            (d2\<lparr>experiments := (experiments d2)[i := (experiments d2 ! i)\<lparr>e_converted_at := Some now, e_status := ''converted''\<rparr>]\<rparr>))"
    using True by (simp add: checkForConversion_def d2_def Let_def split: option.splits)
  show ?thesis
  proof (cases "conversion_candidate u (experiments d2)")
    case None
    then show ?thesis using eq by (simp add: d2_def)
  next
    case (Some i)
    define ex where "ex = (experiments d2 ! i)\<lparr>e_converted_at := Some now, e_status := ''converted''\<rparr>"
    define d3 where "d3 = d2\<lparr>experiments := (experiments d2)[i := ex]\<rparr>"
    have "combo_stats d3 = combo_stats d"
      by (simp add: d3_def d2_def)
    moreover have "checkForConversion now u ty d = updateComboStats now (comboKey_of ex) ex True d3"
      using eq Some by (simp add: d3_def ex_def)
    ultimately show ?thesis by metis
  qed
qed

lemma checkForConversion_grow:
  "rows_grow (combo_stats d) (combo_stats (checkForConversion now u ty d))"
  using checkForConversion_stats[of now u ty d] updateComboStats_grow rows_grow_refl
  by metis

lemma checkForConversion_ok:
  "counts_ok (combo_stats d) \<Longrightarrow> counts_ok (combo_stats (checkForConversion now u ty d))"
  using checkForConversion_stats[of now u ty d] updateComboStats_ok
  by metis

lemma createExperiment_stats:
  "combo_stats (fst (createExperiment en u c a d)) = combo_stats d"
  by (simp add: createExperiment_def Let_def split: option.splits sum.splits)

lemma createExperiment_journey:
  "user_journey (fst (createExperiment en u c a d)) = user_journey d"
  by (simp add: createExperiment_def Let_def split: option.splits sum.splits)

lemma journeys_same_refl: "journeys_same xs xs"
  by (simp add: journeys_same_def list_all2_same)

lemma journeys_same_length: "journeys_same xs ys \<Longrightarrow> length ys = length xs"
  by (simp add: journeys_same_def list_all2_lengthD)

lemma journeys_same_nth:
  "journeys_same xs ys \<Longrightarrow> i < length xs \<Longrightarrow> ys ! i = xs ! i \<or> ys ! i = (xs ! i)\<lparr>j_checked := True\<rparr>"
  by (simp add: journeys_same_def list_all2_conv_all_nth)

lemma journeys_same_trans:
  assumes "journeys_same xs ys" "journeys_same ys zs"
  shows "journeys_same xs zs"
proof -
  have len: "length ys = length xs" "length zs = length xs"
    using assms by (simp_all add: journeys_same_length)
  have "zs ! i = xs ! i \<or> zs ! i = (xs ! i)\<lparr>j_checked := True\<rparr>" if "i < length xs" for i
    using journeys_same_nth[OF assms(1) that] journeys_same_nth[OF assms(2), of i] that len
    by auto
  then show ?thesis
    by (simp add: journeys_same_def list_all2_conv_all_nth len)
qed

lemma journeys_same_update:
  "i < length xs \<Longrightarrow> journeys_same xs (xs[i := (xs ! i)\<lparr>j_checked := True\<rparr>])"
  by (simp add: journeys_same_def list_all2_conv_all_nth nth_list_update)

lemma journeys_same_update_any:
  "journeys_same xs (xs[i := (xs ! i)\<lparr>j_checked := True\<rparr>])"
  by (cases "i < length xs") (simp_all add: journeys_same_update journeys_same_refl list_update_beyond)

lemma journeys_same_mark: "journeys_same js (mark_checked u ty js)"
  by (simp add: journeys_same_def mark_checked_def list_all2_conv_all_nth)

lemma journeys_grow_refl: "journeys_grow xs xs"
  by (simp add: journeys_grow_def journeys_same_refl)

lemma journeys_grow_same: "journeys_same xs ys \<Longrightarrow> journeys_grow xs ys"
  by (simp add: journeys_grow_def journeys_same_length)

lemma journeys_grow_append: "journeys_same xs ys \<Longrightarrow> journeys_grow xs (ys @ zs)"
  by (simp add: journeys_grow_def journeys_same_length)

lemma journeys_grow_nth:
  "journeys_grow xs ys \<Longrightarrow> i < length xs \<Longrightarrow>
     i < length ys \<and> (ys ! i = xs ! i \<or> ys ! i = (xs ! i)\<lparr>j_checked := True\<rparr>)"
  using journeys_same_nth[of xs "take (length xs) ys" i]
  by (auto simp: journeys_grow_def)

lemma journeys_grow_trans:
  assumes "journeys_grow xs ys" "journeys_grow ys zs"
  shows "journeys_grow xs zs"
proof -
  have len: "length xs \<le> length ys" "length ys \<le> length zs"
    using assms by (simp_all add: journeys_grow_def)
  have "zs ! i = xs ! i \<or> zs ! i = (xs ! i)\<lparr>j_checked := True\<rparr>" if "i < length xs" for i
  proof -
    have a: "ys ! i = xs ! i \<or> ys ! i = (xs ! i)\<lparr>j_checked := True\<rparr>"
      using journeys_grow_nth[OF assms(1) that] by simp
    have b: "zs ! i = ys ! i \<or> zs ! i = (ys ! i)\<lparr>j_checked := True\<rparr>"
      using journeys_grow_nth[OF assms(2), of i] that len by simp
    show ?thesis using a b by auto
  qed
  then show ?thesis
    using len by (simp add: journeys_grow_def journeys_same_def list_all2_conv_all_nth)
qed

lemma journeys_grow_checked:
  "journeys_grow xs ys \<Longrightarrow> i < length xs \<Longrightarrow> j_checked (xs ! i) \<Longrightarrow>
     i < length ys \<and> j_checked (ys ! i)"
  using journeys_grow_nth[of xs ys i] by auto

lemma checkForConversion_journey_cases:
  "user_journey (checkForConversion now u ty d) = user_journey d \<or>
   (\<exists>ty'. user_journey (checkForConversion now u ty d) = mark_checked u ty' (user_journey d))"
proof (cases "ty = ''trial_activated''")
  case False
  then show ?thesis by (auto simp: checkForConversion_def)
next
  case True
  then show ?thesis
    by (auto simp: checkForConversion_def Let_def updateComboStats_frame split: option.splits)
qed

lemma checkForConversion_journey:
  "journeys_same (user_journey d) (user_journey (checkForConversion now u ty d))"
  using checkForConversion_journey_cases[of now u ty d]
  by (auto simp: journeys_same_refl journeys_same_mark)

lemma handle_event_journey:
  "journeys_grow (user_journey d) (user_journey (fst (handle_event en ev d)))"
proof -
  let ?uid = "if truthy (ev_user_id ev) then ev_user_id ev else ev_device_id ev"
  let ?props = "case ev_properties ev of Some p \<Rightarrow> p | None \<Rightarrow> \<lparr>a_name = None, a_region = None\<rparr>"
  let ?d1 = "checkForConversion (env_now en) (the ?uid) (ev_event_type ev) d"
  have s1: "journeys_same (user_journey d) (user_journey ?d1)"
    by (rule checkForConversion_journey)
  show ?thesis
  proof (cases "truthy ?uid")
    case False
    then show ?thesis by (simp add: handle_event_def journeys_grow_refl)
  next
    case True
    show ?thesis
    proof (cases "js_get eventConfig (ev_event_type ev)")
      case (Own rule)
      show ?thesis
      proof (cases rule)
        case (Waits w t c)
        have "fst (handle_event en ev d) = ?d1\<lparr>user_journey := user_journey ?d1 @
                 [\<lparr>j_id = env_uuid1 en, j_user_id = the ?uid,
                   j_event_type = ev_event_type ev, j_event_time = env_now en,
                   j_properties = ?props,
                   j_check_at = env_now en + t, j_checked = False\<rparr>]\<rparr>"
          using True Own Waits by (simp add: handle_event_def Let_def)
        then show ?thesis using s1 by (simp add: journeys_grow_append)
      next
        case (Immediate c)
        have "fst (handle_event en ev d) = fst (createExperiment en (the ?uid) c ?props ?d1)"
          using True Own Immediate
          by (simp add: handle_event_def Let_def split: prod.splits sum.splits)
        then show ?thesis using s1 by (simp add: createExperiment_journey journeys_grow_same)
      qed
    next
      case Inherited
      then show ?thesis using True s1 by (simp add: handle_event_def Let_def journeys_grow_same)
    next
      case Absent
      then show ?thesis using True s1 by (simp add: handle_event_def Let_def journeys_grow_same)
    qed
  qed
qed

lemma handle_event_stats:
  "rows_grow (combo_stats d) (combo_stats (fst (handle_event en ev d))) \<and>
   (counts_ok (combo_stats d) \<longrightarrow> counts_ok (combo_stats (fst (handle_event en ev d))))"
proof -
  let ?uid = "if truthy (ev_user_id ev) then ev_user_id ev else ev_device_id ev"
  let ?props = "case ev_properties ev of Some p \<Rightarrow> p | None \<Rightarrow> \<lparr>a_name = None, a_region = None\<rparr>"
  let ?d1 = "checkForConversion (env_now en) (the ?uid) (ev_event_type ev) d"
  have "combo_stats (fst (handle_event en ev d)) = combo_stats d \<or>
        combo_stats (fst (handle_event en ev d)) = combo_stats ?d1"
  proof (cases "truthy ?uid")
    case False
    then show ?thesis by (simp add: handle_event_def)
  next
    case True
    show ?thesis
    proof (cases "js_get eventConfig (ev_event_type ev)")
      case (Own rule)
      show ?thesis
      proof (cases rule)
        case (Waits w t c)
        then show ?thesis using True Own by (simp add: handle_event_def Let_def)
      next
        case (Immediate c)
        have "fst (handle_event en ev d) = fst (createExperiment en (the ?uid) c ?props ?d1)"
          using True Own Immediate
          by (simp add: handle_event_def Let_def split: prod.splits sum.splits)
        then show ?thesis by (simp add: createExperiment_stats)
      qed
    next
      case Inherited
      then show ?thesis using True by (simp add: handle_event_def Let_def)
    next
      case Absent
      then show ?thesis using True by (simp add: handle_event_def Let_def)
    qed
  qed
  then show ?thesis
    using checkForConversion_grow[of d "env_now en" "the ?uid" "ev_event_type ev"]
          checkForConversion_ok[of d "env_now en" "the ?uid" "ev_event_type ev"]
    by (auto simp: rows_grow_refl)
qed

lemma set_checked_frame:
  "combo_stats (set_checked i d) = combo_stats d"
  "experiments (set_checked i d) = experiments d"
  "scheduled_messages (set_checked i d) = scheduled_messages d"
  by (simp_all add: set_checked_def)

lemma set_checked_journey: "journeys_same (user_journey d) (user_journey (set_checked i d))"
  by (simp add: set_checked_def journeys_same_update_any)

lemma set_checked_nth:
  "i < length (user_journey d) \<Longrightarrow> j_checked (user_journey (set_checked i d) ! i)"
  by (simp add: set_checked_def)

text \<open>The follow-up search reads only fields that no operation changes.\<close>

lemma journeys_same_exists:
  assumes "journeys_same xs ys"
  shows "(\<exists>j\<in>set ys. j_user_id j = u \<and> j_event_type j = w \<and> t < j_event_time j) \<longleftrightarrow>
         (\<exists>j\<in>set xs. j_user_id j = u \<and> j_event_type j = w \<and> t < j_event_time j)"
proof -
  have len: "length ys = length xs" using assms by (rule journeys_same_length)
  have nth: "j_user_id (ys ! i) = j_user_id (xs ! i) \<and> j_event_type (ys ! i) = j_event_type (xs ! i) \<and>
             j_event_time (ys ! i) = j_event_time (xs ! i)" if "i < length xs" for i
    using journeys_same_nth[OF assms that] by auto
  show ?thesis
    unfolding in_set_conv_nth Bex_def using len nth by metis
qed

lemma followUp_of_None_iff:
  "followUp_of journey w d = None \<longleftrightarrow>
     \<not> (\<exists>j\<in>set (user_journey d). j_user_id j = j_user_id journey \<and> j_event_type j = w \<and>
            j_event_time journey < j_event_time j)"
  by (auto simp: followUp_of_def find_None_iff)

lemma abandons_same:
  assumes "journeys_same (user_journey d) (user_journey d')" "i < length (user_journey d)"
  shows "abandons d' i = abandons d i"
proof -
  have f: "j_user_id (user_journey d' ! i) = j_user_id (user_journey d ! i)"
          "j_event_type (user_journey d' ! i) = j_event_type (user_journey d ! i)"
          "j_event_time (user_journey d' ! i) = j_event_time (user_journey d ! i)"
    using journeys_same_nth[OF assms] by auto
  have "followUp_of (user_journey d' ! i) w d' = None \<longleftrightarrow> followUp_of (user_journey d ! i) w d = None" for w
    unfolding followUp_of_None_iff f using journeys_same_exists[OF assms(1)] by simp
  then show ?thesis
    by (simp add: abandons_def f split: js_prop.splits event_rule.splits)
qed

lemma sweep_post_shift:
  assumes same: "journeys_same (user_journey d) (user_journey d')"
      and stats: "combo_stats d' = combo_stats d"
      and bound: "\<forall>j\<in>set (i # rest). j < length (user_journey d)"
      and here: "ab0' = ab0 @ filter (abandons d) [i]"
      and chk: "abandons d i \<Longrightarrow> j_checked (user_journey d' ! i)"
      and post: "sweep_post d' rest ab0' res"
  shows "sweep_post d (i # rest) ab0 res"
proof -
  obtain d1 ab err where res: "res = (d1, ab, err)" by (cases res) auto
  from post res obtain k where
        s1: "journeys_same (user_journey d') (user_journey d1)"
    and c1: "combo_stats d1 = combo_stats d'"
    and k: "k \<le> length rest" "ab = ab0' @ filter (abandons d') (take k rest)"
           "err = None \<longrightarrow> k = length rest"
    and ch: "err = None \<longrightarrow> (\<forall>j\<in>set rest. abandons d' j \<longrightarrow> j_checked (user_journey d1 ! j))"
    by (auto simp: sweep_post_def)
  have ab_eq: "abandons d' j = abandons d j" if "j \<in> set (i # rest)" for j
    using abandons_same[OF same] bound that by auto
  have "filter (abandons d') (take k rest) = filter (abandons d) (take k rest)"
    by (rule filter_cong) (auto dest: in_set_takeD simp: ab_eq)
  then have ab: "ab = ab0 @ filter (abandons d) (take (Suc k) (i # rest))"
    using k(2) here by simp
  have i_len: "i < length (user_journey d')"
    using bound journeys_same_length[OF same] by simp
  have "j_checked (user_journey d1 ! i)" if "abandons d i"
    using journeys_same_nth[OF s1 i_len] chk[OF that] by auto
  then have ch': "err = None \<longrightarrow> (\<forall>j\<in>set (i # rest). abandons d j \<longrightarrow> j_checked (user_journey d1 ! j))"
    using ch ab_eq by auto
  have "Suc k \<le> length (i # rest) \<and> ab = ab0 @ filter (abandons d) (take (Suc k) (i # rest)) \<and>
        (err = None \<longrightarrow> Suc k = length (i # rest))"
    using k ab by simp
  then have ex: "\<exists>k\<le>length (i # rest). ab = ab0 @ filter (abandons d) (take k (i # rest)) \<and>
                                     (err = None \<longrightarrow> k = length (i # rest))"
    by blast
  show ?thesis
    unfolding sweep_post_def res prod.case
    using journeys_same_trans[OF same s1] c1 stats ex ch' by simp
qed

lemma sweep_loop_post:
  "\<forall>i\<in>set todo. i < length (user_journey d) \<Longrightarrow> sweep_post d todo ab0 (sweep_loop envs todo d ab0)"
proof (induction todo arbitrary: d ab0)
  case Nil
  then show ?case by (simp add: sweep_post_def journeys_same_refl)
next
  case (Cons i rest)
  let ?journey = "user_journey d ! i"
  have len: "i < length (user_journey d)" using Cons.prems by simp
  have IH: "sweep_post d' rest ab0' (sweep_loop envs rest d' ab0')"
    if "journeys_same (user_journey d) (user_journey d')" for d' ab0'
    using Cons.IH[of d' ab0'] Cons.prems journeys_same_length[OF that] by simp
  show ?case
  proof (cases "js_get eventConfig (j_event_type ?journey)")
    case Inherited
    then have eq: "sweep_loop envs (i # rest) d ab0 = sweep_loop envs rest d ab0" by simp
    have na: "\<not> abandons d i" using Inherited by (simp add: abandons_def)
    show ?thesis unfolding eq
      by (rule sweep_post_shift[OF journeys_same_refl refl Cons.prems _ _ IH[OF journeys_same_refl]])
         (simp_all add: na)
  next
    case Absent
    then have eq: "sweep_loop envs (i # rest) d ab0 = sweep_loop envs rest d ab0" by simp
    have na: "\<not> abandons d i" using Absent by (simp add: abandons_def)
    show ?thesis unfolding eq
      by (rule sweep_post_shift[OF journeys_same_refl refl Cons.prems _ _ IH[OF journeys_same_refl]])
         (simp_all add: na)
  next
    case (Own rule)
    show ?thesis
    proof (cases rule)
      case (Immediate c)
      then have eq: "sweep_loop envs (i # rest) d ab0 = sweep_loop envs rest d ab0"
        using Own by simp
      have na: "\<not> abandons d i" using Own Immediate by (simp add: abandons_def)
      show ?thesis unfolding eq
        by (rule sweep_post_shift[OF journeys_same_refl refl Cons.prems _ _ IH[OF journeys_same_refl]])
           (simp_all add: na)
    next
      case (Waits w t c)
      show ?thesis
      proof (cases "followUp_of ?journey w d")
        case (Some followUp)
        then have eq: "sweep_loop envs (i # rest) d ab0 = sweep_loop envs rest (set_checked i d) ab0"
          using Own Waits by simp
        have na: "\<not> abandons d i" using Own Waits Some by (simp add: abandons_def)
        show ?thesis unfolding eq
          by (rule sweep_post_shift[OF set_checked_journey _ Cons.prems _ _ IH[OF set_checked_journey]])
             (simp_all add: na set_checked_frame)
      next
        case None
        have ya: "abandons d i" using Own Waits None by (simp add: abandons_def)
        obtain d1 r where ce: "createExperiment (envs i) (j_user_id ?journey) c (j_properties ?journey) d = (d1, r)"
          by (cases "createExperiment (envs i) (j_user_id ?journey) c (j_properties ?journey) d") auto
        have uj: "user_journey d1 = user_journey d" and cs: "combo_stats d1 = combo_stats d"
          using createExperiment_journey[of "envs i" "j_user_id ?journey" c "j_properties ?journey" d]
                createExperiment_stats[of "envs i" "j_user_id ?journey" c "j_properties ?journey" d] ce
          by simp_all
        show ?thesis
        proof (cases r)
          case (Inl err)
          then have eq: "sweep_loop envs (i # rest) d ab0 = (d1, ab0 @ [i], Some err)"
            using Own Waits None ce by simp
          have "\<exists>k\<le>length (i # rest). ab0 @ [i] = ab0 @ filter (abandons d) (take k (i # rest)) \<and>
                   (Some err = None \<longrightarrow> k = length (i # rest))"
            by (rule exI[of _ 1]) (simp add: ya)
          then show ?thesis unfolding eq sweep_post_def prod.case
            using uj cs by (simp add: journeys_same_refl)
        next
          case (Inr res)
          then have eq: "sweep_loop envs (i # rest) d ab0 = sweep_loop envs rest (set_checked i d1) (ab0 @ [i])"
            using Own Waits None ce by simp
          have same: "journeys_same (user_journey d) (user_journey (set_checked i d1))"
            using set_checked_journey[of d1 i] uj by simp
          have chk: "j_checked (user_journey (set_checked i d1) ! i)"
            using set_checked_nth[of i d1] len uj by simp
          show ?thesis unfolding eq
            by (rule sweep_post_shift[OF same _ Cons.prems _ _ IH[OF same]])
               (simp_all add: ya set_checked_frame cs chk)
        qed
      qed
    qed
  qed
qed

lemma store_grows_refl: "store_grows d d"
  by (simp add: store_grows_def rows_grow_refl journeys_grow_refl)

lemma store_grows_trans: "store_grows a b \<Longrightarrow> store_grows b c \<Longrightarrow> store_grows a c"
  unfolding store_grows_def using rows_grow_trans journeys_grow_trans by blast

lemma dispatch_loop_grows: "store_grows d (fst (dispatch_loop ct clock ks d trace))"
proof (induction ks arbitrary: d trace)
  case Nil
  then show ?case by (simp add: store_grows_refl)
next
  case (Cons k rest)
  let ?msg = "scheduled_messages d ! k"
  show ?case
  proof (cases "find (\<lambda>e. e_id e = m_experiment_id ?msg) (experiments d)")
    case None
    then show ?thesis using Cons.IH[of d trace] by simp
  next
    case (Some ex)
    define d2 where "d2 = d\<lparr>scheduled_messages := (scheduled_messages d)[k := ?msg\<lparr>m_status := ''sent''\<rparr>],
                           experiments := mutate_first (\<lambda>e. e_id e = m_experiment_id ?msg)
                              (\<lambda>e. e\<lparr>e_sent_at := Some (clock k), e_status := ''sent''\<rparr>) (experiments d)\<rparr>"
    define d3 where "d3 = updateComboStats (clock k) (comboKey_of ex) ex False d2"
    have eq: "dispatch_loop ct clock (k # rest) d trace =
                dispatch_loop ct clock rest d3
                  (trace @ [sendViaCleverTap ct (m_user_id ?msg) (e_message ex) (e_channel ex) (m_experiment_id ?msg)])"
      using Some by (simp add: Let_def d3_def d2_def)
    have f2: "combo_stats d2 = combo_stats d" "user_journey d2 = user_journey d"
      by (simp_all add: d2_def)
    have "store_grows d d3"
      unfolding store_grows_def d3_def
      using updateComboStats_grow[of d2 "clock k" "comboKey_of ex" ex False]
            updateComboStats_ok[of d2 "clock k" "comboKey_of ex" ex False]
      by (simp add: f2 updateComboStats_frame journeys_grow_refl)
    then show ?thesis unfolding eq using Cons.IH store_grows_trans by blast
  qed
qed

lemma createExperiment_grows: "store_grows d (fst (createExperiment en u c a d))"
  by (simp add: store_grows_def createExperiment_stats createExperiment_journey
        rows_grow_refl journeys_grow_refl)

lemma handle_event_grows: "store_grows d (fst (handle_event en ev d))"
  using handle_event_stats[of d en ev] handle_event_journey[of d en ev]
  by (simp add: store_grows_def)

lemma pendingChecks_bound:
  "i \<in> set (pendingChecks now d) \<Longrightarrow>
     i < length (user_journey d) \<and> \<not> j_checked (user_journey d ! i) \<and>
     j_check_at (user_journey d ! i) \<le> now"
  by (auto simp: pendingChecks_def dest!: in_set_takeD)

lemma distinct_pendingChecks: "distinct (pendingChecks now d)"
  by (simp add: pendingChecks_def distinct_take)

lemma sweep_post: "sweep_post d (pendingChecks now d) [] (sweep now envs d)"
  unfolding sweep_def by (rule sweep_loop_post) (simp add: pendingChecks_bound)

lemma sweep_grows: "store_grows d (fst (sweep now envs d))"
  using sweep_post[of d now envs]
  by (auto simp: sweep_post_def store_grows_def rows_grow_refl journeys_grow_same
           split: prod.splits)

lemma exec_grows: "store_grows d (fst (exec p d))"
proof (cases p)
  case (Webhook en ev)
  then show ?thesis by (simp add: handle_event_grows)
next
  case (Sweep now envs)
  then show ?thesis using sweep_grows[of d now envs] by (auto split: prod.splits)
next
  case (Dispatch now ct clock)
  then show ?thesis by (simp add: dispatch_def dispatch_loop_grows)
next
  case (Trigger en u c a)
  then show ?thesis by (simp add: createExperiment_grows store_grows_refl)
next
  case Experiments
  then show ?thesis by (simp add: store_grows_def rows_grow_refl journeys_grow_refl)
qed

lemma run_grows: "store_grows d (fst (run ps d))"
proof (induction ps arbitrary: d)
  case Nil
  then show ?case by (simp add: store_grows_refl)
next
  case (Cons p ps)
  have "fst (run (p # ps) d) = fst (run ps (fst (exec p d)))"
    by (simp split: prod.splits)
  then show ?case using exec_grows[of d p] Cons.IH[of "fst (exec p d)"] store_grows_trans by metis
qed

lemma exec_abandoned_unchecked:
  "i \<in> set (snd (exec p d)) \<Longrightarrow> i < length (user_journey d) \<and> \<not> j_checked (user_journey d ! i)"
proof (cases p)
  case (Sweep now envs)
  assume i: "i \<in> set (snd (exec p d))"
  obtain d1 ab err where sw: "sweep now envs d = (d1, ab, err)" by (cases "sweep now envs d") auto
  from sweep_post[of d now envs] sw obtain k where "ab = filter (abandons d) (take k (pendingChecks now d))"
    by (auto simp: sweep_post_def)
  then have "i \<in> set (pendingChecks now d)" using i Sweep sw by (auto dest: in_set_takeD)
  then show ?thesis using pendingChecks_bound by blast
qed (simp_all split: if_splits)

lemma run_abandoned_unchecked:
  "i \<in> set (snd (run ps d)) \<Longrightarrow> i < length (user_journey d) \<Longrightarrow> \<not> j_checked (user_journey d ! i)"
proof (induction ps arbitrary: d)
  case Nil
  then show ?case by simp
next
  case (Cons p ps)
  let ?d1 = "fst (exec p d)"
  have split: "snd (run (p # ps) d) = snd (exec p d) @ snd (run ps ?d1)"
    by (simp split: prod.splits)
  show ?case
  proof
    assume chk: "j_checked (user_journey d ! i)"
    have g: "journeys_grow (user_journey d) (user_journey ?d1)"
      using exec_grows[of d p] by (simp add: store_grows_def)
    have c1: "i < length (user_journey ?d1) \<and> j_checked (user_journey ?d1 ! i)"
      using journeys_grow_checked[OF g Cons.prems(2) chk] .
    from Cons.prems(1) split have "i \<in> set (snd (exec p d)) \<or> i \<in> set (snd (run ps ?d1))" by simp
    then show False
    proof
      assume "i \<in> set (snd (exec p d))"
      then show False using exec_abandoned_unchecked chk by blast
    next
      assume "i \<in> set (snd (run ps ?d1))"
      then show False using Cons.IH[of ?d1] c1 by blast
    qed
  qed
qed

lemma rows_grow_find:
  "rows_grow xs ys \<Longrightarrow> find (\<lambda>r. s_combo_key r = key) xs = Some s \<Longrightarrow>
     \<exists>s'. find (\<lambda>r. s_combo_key r = key) ys = Some s' \<and>
          s_sent_count s \<le> s_sent_count s' \<and> s_converted_count s \<le> s_converted_count s'"
proof (induction xs arbitrary: ys)
  case Nil
  then show ?case by simp
next
  case (Cons x xs)
  from Cons.prems(1) obtain y ys' where ys: "ys = y # ys'"
    by (cases ys) (auto simp: rows_grow_def)
  from Cons.prems(1) ys have rel: "s_combo_key y = s_combo_key x" "s_sent_count x \<le> s_sent_count y"
      "s_converted_count x \<le> s_converted_count y" and rest: "rows_grow xs ys'"
    by (auto simp: rows_grow_def)
  show ?case
  proof (cases "s_combo_key x = key")
    case True
    then show ?thesis using Cons.prems(2) rel ys by auto
  next
    case False
    then show ?thesis using Cons.IH[OF rest] Cons.prems(2) rel ys by auto
  qed
qed

section \<open>Statistics counters (C7)\<close>

text \<open>
  C7: for every ComboStat key, \<open>sent_count\<close> and \<open>converted_count\<close> never
  decrease across any operation, and \<open>converted_count \<le> sent_count\<close> holds in every
  reachable state. The row of a key is the one \<^verbatim>\<open>find\<close> returns, as in
  \<^verbatim>\<open>updateComboStats\<close>. Whatever sequence \<open>ps\<close> of webhook events,
  sweeps, dispatcher runs and manual triggers runs on a store \<open>d\<close>: a key that has a
  row in \<open>d\<close> has one afterwards, with counts at least as large; if every row of
  \<open>d\<close> has \<open>converted_count \<le> sent_count\<close>, so has every row afterwards; and
  so has every row of a store reached from the empty one.
\<close>

theorem counts_never_decrease:
  "(\<forall>key s. find (\<lambda>r. s_combo_key r = key) (combo_stats d) = Some s \<longrightarrow>
      (\<exists>s'. find (\<lambda>r. s_combo_key r = key) (combo_stats (fst (run ps d))) = Some s' \<and>
            s_sent_count s \<le> s_sent_count s' \<and> s_converted_count s \<le> s_converted_count s')) \<and>
   ((\<forall>s\<in>set (combo_stats d). s_converted_count s \<le> s_sent_count s) \<longrightarrow>
      (\<forall>s\<in>set (combo_stats (fst (run ps d))). s_converted_count s \<le> s_sent_count s)) \<and>
   (\<forall>s\<in>set (combo_stats (fst (run ps defaultData))). s_converted_count s \<le> s_sent_count s)"
proof -
  have g: "store_grows d' (fst (run ps d'))" for d' by (rule run_grows)
  have a: "\<exists>s'. find (\<lambda>r. s_combo_key r = key) (combo_stats (fst (run ps d))) = Some s' \<and>
            s_sent_count s \<le> s_sent_count s' \<and> s_converted_count s \<le> s_converted_count s'"
    if "find (\<lambda>r. s_combo_key r = key) (combo_stats d) = Some s" for key s
    using rows_grow_find[OF _ that] g[of d] by (simp add: store_grows_def)
  have b: "(\<forall>s\<in>set (combo_stats d'). s_converted_count s \<le> s_sent_count s) \<longrightarrow>
      (\<forall>s\<in>set (combo_stats (fst (run ps d'))). s_converted_count s \<le> s_sent_count s)" for d'
    using g[of d'] by (simp add: store_grows_def counts_ok_def list_all_iff)
  have c: "\<forall>s\<in>set (combo_stats (fst (run ps defaultData))). s_converted_count s \<le> s_sent_count s"
    using b[of defaultData] by (simp add: defaultData_def)
  show ?thesis using a b c by blast
qed

theorem counts_never_decrease_witness:
  "(\<exists>s s'. find (\<lambda>r. s_combo_key r = ''2min|whatsapp|scarcity|discount_50'') (combo_stats st_sent) = Some s \<and>
      find (\<lambda>r. s_combo_key r = ''2min|whatsapp|scarcity|discount_50'')
        (combo_stats (fst (run [Webhook (env0\<lparr>env_now := 300000\<rparr>) activated] st_sent))) = Some s' \<and>
      s_sent_count s = 1 \<and> s_sent_count s \<le> s_sent_count s' \<and>
      s_converted_count s \<le> s_converted_count s') \<and>
   combo_stats (fst (run [Trigger env0 ''u1'' ''checkout_abandoners'' no_attrs,
                          Dispatch 200000 failing_adapter (\<lambda>k. 200001),
                          Webhook (env0\<lparr>env_now := 300000\<rparr>) activated] defaultData)) \<noteq> [] \<and>
   list_all (\<lambda>s. s_converted_count s \<le> s_sent_count s)
     (combo_stats (fst (run [Trigger env0 ''u1'' ''checkout_abandoners'' no_attrs,
                             Dispatch 200000 failing_adapter (\<lambda>k. 200001),
                             Webhook (env0\<lparr>env_now := 300000\<rparr>) activated] defaultData)))"
proof -
  let ?key = "''2min|whatsapp|scarcity|discount_50''"
  let ?row = "\<lparr>s_combo_key = ?key, s_timing = Some ''2min'', s_channel = Some ''whatsapp'',
               s_lever = Some ''scarcity'', s_offer = Some ''discount_50'', s_sent_count = 1,
               s_converted_count = 0, s_last_updated = 200001\<rparr>"
  let ?ops = "[Trigger env0 ''u1'' ''checkout_abandoners'' no_attrs,
               Dispatch 200000 failing_adapter (\<lambda>k. 200001),
               Webhook (env0\<lparr>env_now := 300000\<rparr>) activated]"
  have h: "find (\<lambda>r. s_combo_key r = ?key) (combo_stats st_sent) = Some ?row"
    by code_simp
  have ne: "combo_stats (fst (run ?ops defaultData)) \<noteq> []"
    by code_simp
  note t = counts_never_decrease[of st_sent "[Webhook (env0\<lparr>env_now := 300000\<rparr>) activated]"]
  note t' = counts_never_decrease[of defaultData ?ops]
  from t h obtain s' where
    "find (\<lambda>r. s_combo_key r = ?key)
        (combo_stats (fst (run [Webhook (env0\<lparr>env_now := 300000\<rparr>) activated] st_sent))) = Some s'"
    "s_sent_count ?row \<le> s_sent_count s'" "s_converted_count ?row \<le> s_converted_count s'"
    by blast
  then have first: "\<exists>s s'. find (\<lambda>r. s_combo_key r = ?key) (combo_stats st_sent) = Some s \<and>
      find (\<lambda>r. s_combo_key r = ?key)
        (combo_stats (fst (run [Webhook (env0\<lparr>env_now := 300000\<rparr>) activated] st_sent))) = Some s' \<and>
      s_sent_count s = 1 \<and> s_sent_count s \<le> s_sent_count s' \<and>
      s_converted_count s \<le> s_converted_count s'"
    using h by (intro exI[of _ ?row] exI[of _ s']) simp
  have "list_all (\<lambda>s. s_converted_count s \<le> s_sent_count s) (combo_stats (fst (run ?ops defaultData)))"
    using t' by (simp add: list_all_iff)
  then show ?thesis using first ne by blast
qed

section \<open>The resolved flag (C5)\<close>

text \<open>
  C5: the \<open>resolved\<close> flag of a journey record (the field
  \<^verbatim>\<open>checked\<close>) goes from false to true at most once and never back, under
  any sequence of events and sweeps; a record that a sweep has abandoned and resolved is
  skipped by every later sweep, so abandonment is handled once per record. A record is
  named by its position in \<^verbatim>\<open>user_journey\<close>, which never changes.
  First part: a record that is resolved in \<open>d\<close> is still there and resolved after any
  sequence \<open>ps\<close> of operations, and none of the sweeps among them prints
  \<^verbatim>\<open>[ABANDONED]\<close> for it. Second part: one sweep abandons no record twice,
  abandons only records that were unresolved, and, when no call of
  \<^verbatim>\<open>createExperiment\<close> throws, leaves every record it abandoned resolved.
\<close>

theorem resolved_is_final:
  "(i < length (user_journey d) \<and> j_checked (user_journey d ! i) \<longrightarrow>
      i < length (user_journey (fst (run ps d))) \<and>
      j_checked (user_journey (fst (run ps d)) ! i) \<and>
      i \<notin> set (snd (run ps d))) \<and>
   (case sweep now envs d of
      (d1, abandoned, err) \<Rightarrow>
        distinct abandoned \<and>
        (\<forall>k\<in>set abandoned. k < length (user_journey d) \<and> \<not> j_checked (user_journey d ! k)) \<and>
        (err = None \<longrightarrow> (\<forall>k\<in>set abandoned. j_checked (user_journey d1 ! k))))"
proof -
  have first: "i < length (user_journey (fst (run ps d))) \<and>
      j_checked (user_journey (fst (run ps d)) ! i) \<and> i \<notin> set (snd (run ps d))"
    if "i < length (user_journey d)" "j_checked (user_journey d ! i)"
  proof -
    have "journeys_grow (user_journey d) (user_journey (fst (run ps d)))"
      using run_grows[of d ps] by (simp add: store_grows_def)
    then have "i < length (user_journey (fst (run ps d))) \<and> j_checked (user_journey (fst (run ps d)) ! i)"
      using that by (rule journeys_grow_checked)
    moreover have "i \<notin> set (snd (run ps d))"
      using run_abandoned_unchecked[of i ps d] that by blast
    ultimately show ?thesis by simp
  qed
  obtain d1 ab err where sw: "sweep now envs d = (d1, ab, err)"
    by (cases "sweep now envs d") auto
  from sweep_post[of d now envs] sw obtain k where
        ab: "ab = filter (abandons d) (take k (pendingChecks now d))"
    and fin: "err = None \<longrightarrow> (\<forall>i\<in>set (pendingChecks now d). abandons d i \<longrightarrow> j_checked (user_journey d1 ! i))"
    by (auto simp: sweep_post_def)
  have sub: "set ab \<subseteq> set (pendingChecks now d)"
    using ab by (auto dest: in_set_takeD)
  have "distinct ab"
    using ab distinct_pendingChecks[of now d] by (simp add: distinct_take)
  moreover have "\<forall>k\<in>set ab. k < length (user_journey d) \<and> \<not> j_checked (user_journey d ! k)"
    using sub pendingChecks_bound by blast
  moreover have "err = None \<longrightarrow> (\<forall>k\<in>set ab. j_checked (user_journey d1 ! k))"
    using fin sub ab by auto
  ultimately show ?thesis using first sw by simp
qed

theorem resolved_is_final_witness:
  "(0 < length (user_journey st_abandoned) \<and> j_checked (user_journey st_abandoned ! 0)) \<and>
   (0 < length (user_journey (fst (run later_runs st_abandoned))) \<and>
    j_checked (user_journey (fst (run later_runs st_abandoned)) ! 0) \<and>
    0 \<notin> set (snd (run later_runs st_abandoned))) \<and>
   snd (run later_runs st_abandoned) = [1] \<and>
   snd (sweep 1860000 (sweep_envs 1860000) st_waiting) = ([0], None) \<and>
   \<not> j_checked (user_journey st_waiting ! 0) \<and>
   j_checked (user_journey (fst (sweep 1860000 (sweep_envs 1860000) st_waiting)) ! 0)"
proof -
  have h: "0 < length (user_journey st_abandoned) \<and> j_checked (user_journey st_abandoned ! 0)"
    by code_simp
  have later: "snd (run later_runs st_abandoned) = [1]"
    by code_simp
  have sw: "snd (sweep 1860000 (sweep_envs 1860000) st_waiting) = ([0], None)"
    by code_simp
  from resolved_is_final[of 0 st_abandoned later_runs] h
  have c2: "0 < length (user_journey (fst (run later_runs st_abandoned))) \<and>
    j_checked (user_journey (fst (run later_runs st_abandoned)) ! 0) \<and>
    0 \<notin> set (snd (run later_runs st_abandoned))"
    by blast
  obtain d1 where d1: "sweep 1860000 (sweep_envs 1860000) st_waiting = (d1, [0], None)"
    using sw by (cases "sweep 1860000 (sweep_envs 1860000) st_waiting") auto
  from resolved_is_final[of 0 st_waiting "[]" 1860000 "sweep_envs 1860000"] d1
  have c3: "\<not> j_checked (user_journey st_waiting ! 0) \<and> j_checked (user_journey d1 ! 0)"
    by simp
  show ?thesis using h c2 later sw c3 d1 by simp
qed

section \<open>The follow-up test of the sweep (C6)\<close>

text \<open>
  C6: in the deadline sweep, an event of the same user and of the expected follow-up
  type suppresses abandonment if and only if its event time is strictly greater than the
  event time of the record being checked; an equal or earlier one does not. The events
  the sweep can see are the records of \<^verbatim>\<open>user_journey\<close>. For a record
  \<open>i\<close> the sweep picks up, whose event type waits for \<open>waitForEvent\<close>:
  if the sweep abandons it, no record of that user and type has a strictly greater event
  time; and when the sweep runs to its end, it abandons the record exactly when there is
  no such record.
\<close>

theorem followUp_counts_iff_strictly_later:
  assumes "sweep now envs d = (d1, abandoned, err)"
      and "i \<in> set (pendingChecks now d)"
      and "js_get eventConfig (j_event_type (user_journey d ! i)) = Own (Waits waitForEvent timeout cohortIfMissing)"
  shows "(i \<in> set abandoned \<longrightarrow>
            \<not> (\<exists>j\<in>set (user_journey d). j_user_id j = j_user_id (user_journey d ! i) \<and>
                   j_event_type j = waitForEvent \<and>
                   j_event_time (user_journey d ! i) < j_event_time j)) \<and>
         (err = None \<longrightarrow>
            (i \<in> set abandoned \<longleftrightarrow>
               \<not> (\<exists>j\<in>set (user_journey d). j_user_id j = j_user_id (user_journey d ! i) \<and>
                      j_event_type j = waitForEvent \<and>
                      j_event_time (user_journey d ! i) < j_event_time j)))"
proof -
  let ?later = "\<exists>j\<in>set (user_journey d). j_user_id j = j_user_id (user_journey d ! i) \<and>
                   j_event_type j = waitForEvent \<and>
                   j_event_time (user_journey d ! i) < j_event_time j"
  have ab_iff: "abandons d i \<longleftrightarrow> \<not> ?later"
    using assms(3) by (simp add: abandons_def followUp_of_None_iff)
  from sweep_post[of d now envs] assms(1) obtain k where
        ab: "abandoned = filter (abandons d) (take k (pendingChecks now d))"
    and k: "err = None \<longrightarrow> k = length (pendingChecks now d)"
    by (auto simp: sweep_post_def)
  have "i \<in> set abandoned \<longrightarrow> abandons d i" using ab by simp
  moreover have "err = None \<longrightarrow> (i \<in> set abandoned \<longleftrightarrow> abandons d i)"
    using ab k assms(2) by auto
  ultimately show ?thesis using ab_iff by simp
qed

theorem followUp_counts_iff_strictly_later_witness:
  "snd (sweep 1860000 (sweep_envs 1860000) st_out_of_order) = ([0, 1], None) \<and>
   1 \<in> set (pendingChecks 1860000 st_out_of_order) \<and>
   js_get eventConfig (j_event_type (user_journey st_out_of_order ! 1)) =
     Own (Waits ''trial_initiated'' 1800000 ''paywall_bouncers'') \<and>
   (\<exists>j\<in>set (user_journey st_out_of_order).
      j_user_id j = j_user_id (user_journey st_out_of_order ! 1) \<and>
      j_event_type j = ''trial_initiated'' \<and>
      j_event_time j = j_event_time (user_journey st_out_of_order ! 1)) \<and>
   \<not> (\<exists>j\<in>set (user_journey st_out_of_order).
      j_user_id j = j_user_id (user_journey st_out_of_order ! 1) \<and>
      j_event_type j = ''trial_initiated'' \<and>
      j_event_time (user_journey st_out_of_order ! 1) < j_event_time j) \<and>
   snd (sweep 1860000 (sweep_envs 1860000) st_followed_up) = ([], None) \<and>
   0 \<in> set (pendingChecks 1860000 st_followed_up) \<and>
   js_get eventConfig (j_event_type (user_journey st_followed_up ! 0)) =
     Own (Waits ''trial_initiated'' 1800000 ''paywall_bouncers'') \<and>
   (\<exists>j\<in>set (user_journey st_followed_up).
      j_user_id j = j_user_id (user_journey st_followed_up ! 0) \<and>
      j_event_type j = ''trial_initiated'' \<and>
      j_event_time (user_journey st_followed_up ! 0) < j_event_time j)"
proof -
  have a1: "snd (sweep 1860000 (sweep_envs 1860000) st_out_of_order) = ([0, 1], None)"
    by code_simp
  have a2: "1 \<in> set (pendingChecks 1860000 st_out_of_order)"
    by code_simp
  have a3: "js_get eventConfig (j_event_type (user_journey st_out_of_order ! 1)) =
     Own (Waits ''trial_initiated'' 1800000 ''paywall_bouncers'')"
    by code_simp
  have a4: "\<exists>j\<in>set (user_journey st_out_of_order).
      j_user_id j = j_user_id (user_journey st_out_of_order ! 1) \<and>
      j_event_type j = ''trial_initiated'' \<and>
      j_event_time j = j_event_time (user_journey st_out_of_order ! 1)"
    by code_simp
  obtain d1 where d1: "sweep 1860000 (sweep_envs 1860000) st_out_of_order = (d1, [0, 1], None)"
    using a1 by (cases "sweep 1860000 (sweep_envs 1860000) st_out_of_order") auto
  from followUp_counts_iff_strictly_later[OF d1 a2 a3]
  have a5: "\<not> (\<exists>j\<in>set (user_journey st_out_of_order).
      j_user_id j = j_user_id (user_journey st_out_of_order ! 1) \<and>
      j_event_type j = ''trial_initiated'' \<and>
      j_event_time (user_journey st_out_of_order ! 1) < j_event_time j)"
    by simp
  have b1: "snd (sweep 1860000 (sweep_envs 1860000) st_followed_up) = ([], None)"
    by code_simp
  have b2: "0 \<in> set (pendingChecks 1860000 st_followed_up)"
    by code_simp
  have b3: "js_get eventConfig (j_event_type (user_journey st_followed_up ! 0)) =
     Own (Waits ''trial_initiated'' 1800000 ''paywall_bouncers'')"
    by code_simp
  obtain d2 where d2: "sweep 1860000 (sweep_envs 1860000) st_followed_up = (d2, [], None)"
    using b1 by (cases "sweep 1860000 (sweep_envs 1860000) st_followed_up") auto
  from followUp_counts_iff_strictly_later[OF d2 b2 b3]
  have b4: "\<exists>j\<in>set (user_journey st_followed_up).
      j_user_id j = j_user_id (user_journey st_followed_up ! 0) \<and>
      j_event_type j = ''trial_initiated'' \<and>
      j_event_time (user_journey st_followed_up ! 0) < j_event_time j"
    by auto
  show ?thesis using a1 a2 a3 a4 a5 b1 b2 b3 b4 by blast
qed

section \<open>Deduplication in the experiment factory (C3)\<close>

lemma createExperiment_recent:
  assumes "find (\<lambda>e. e_user_id e = userId \<and> e_cohort e = cohort \<and>
                     e_created_at e > env_now en - 60 * 60 * 1000) (experiments d) = Some recent"
  shows "createExperiment en userId cohort userAttributes d = (d, Inr (Existing recent))"
  using assms by (simp add: createExperiment_def)

lemma createExperiment_created:
  assumes none: "find (\<lambda>e. e_user_id e = userId \<and> e_cohort e = cohort \<and>
                     e_created_at e > env_now en - 60 * 60 * 1000) (experiments d) = None"
      and res: "createExperiment en userId cohort userAttributes d = (d1, Inr r1)"
  shows "\<exists>ex m. experiments d1 = experiments d @ [ex] \<and>
               scheduled_messages d1 = scheduled_messages d @ [m] \<and>
               combo_stats d1 = combo_stats d \<and> user_journey d1 = user_journey d \<and>
               e_id ex = result_id r1 \<and> e_user_id ex = userId \<and> e_cohort ex = cohort \<and>
               e_created_at ex = env_now en \<and> e_status ex = ''pending'' \<and>
               m_experiment_id m = result_id r1 \<and> m_user_id m = userId \<and>
               m_status m = ''pending'' \<and> result_id r1 = env_uuid1 en"
proof (cases "selectCombo (env_select en) cohort d")
  case (Inl err)
  then show ?thesis using none res by (simp add: createExperiment_def)
next
  case c: (Inr c)
  show ?thesis
  proof (cases "generateMessage (env_message en) c userAttributes")
    case (Inl err)
    then show ?thesis using none res c by (simp add: createExperiment_def)
  next
    case m: (Inr message)
    show ?thesis
    proof (cases "sendAt_of (env_zone en) (env_now en) (c_timing c)")
      case (Inl err)
      then show ?thesis using none res c m by (simp add: createExperiment_def Let_def)
    next
      case (Inr sendAt)
      then show ?thesis using none res c m
        by (auto simp: createExperiment_def Let_def)
    qed
  qed
qed

text \<open>
  C3: \<^verbatim>\<open>createExperiment\<close> is idempotent within the recency window. First
  part: when the store holds an experiment of this user and cohort created less than one
  hour before the call, the call returns a stored experiment of this user and cohort
  created less than one hour ago (the first in store order) and returns the store as it
  was: no new experiment, no new scheduled send, the existing experiment untouched.
  Second part: when the store holds none and the call returns a result, a second call
  less than one hour later (the clock not running backwards) returns the same
  identifier and leaves the store as the first call left it, which holds exactly one new
  experiment and exactly one new scheduled send, pending and referring to that
  identifier.
\<close>

theorem createExperiment_idempotent:
  "(\<forall>e\<in>set (experiments d).
      e_user_id e = userId \<and> e_cohort e = cohort \<and> env_now en - e_created_at e < 3600000 \<longrightarrow>
      (\<exists>recent\<in>set (experiments d).
         e_user_id recent = userId \<and> e_cohort recent = cohort \<and>
         env_now en - e_created_at recent < 3600000 \<and>
         createExperiment en userId cohort userAttributes d = (d, Inr (Existing recent)))) \<and>
   ((\<forall>e\<in>set (experiments d).
       \<not> (e_user_id e = userId \<and> e_cohort e = cohort \<and> env_now en - e_created_at e < 3600000)) \<and>
    createExperiment en userId cohort userAttributes d = (d1, Inr r1) \<and>
    env_now en \<le> env_now en2 \<and> env_now en2 - env_now en < 3600000 \<longrightarrow>
      (\<exists>r2. createExperiment en2 userId cohort userAttributes2 d1 = (d1, Inr r2) \<and>
            result_id r2 = result_id r1) \<and>
      (\<exists>ex. experiments d1 = experiments d @ [ex] \<and> e_id ex = result_id r1) \<and>
      (\<exists>m. scheduled_messages d1 = scheduled_messages d @ [m] \<and>
           m_experiment_id m = result_id r1 \<and> m_status m = ''pending''))"
proof (intro conjI ballI impI)
  fix e
  assume e: "e \<in> set (experiments d)"
     and p: "e_user_id e = userId \<and> e_cohort e = cohort \<and> env_now en - e_created_at e < 3600000"
  let ?P = "\<lambda>e. e_user_id e = userId \<and> e_cohort e = cohort \<and> e_created_at e > env_now en - 60 * 60 * 1000"
  have "?P e" using p by simp
  then have "find ?P (experiments d) \<noteq> None" using e by (auto simp: find_None_iff)
  then obtain recent where f: "find ?P (experiments d) = Some recent" by auto
  have "recent \<in> set (experiments d) \<and> ?P recent" using find_Some_props[OF f] .
  moreover have "createExperiment en userId cohort userAttributes d = (d, Inr (Existing recent))"
    using f by (rule createExperiment_recent)
  ultimately show "\<exists>recent\<in>set (experiments d).
         e_user_id recent = userId \<and> e_cohort recent = cohort \<and>
         env_now en - e_created_at recent < 3600000 \<and>
         createExperiment en userId cohort userAttributes d = (d, Inr (Existing recent))"
    by auto
next
  assume a: "(\<forall>e\<in>set (experiments d).
       \<not> (e_user_id e = userId \<and> e_cohort e = cohort \<and> env_now en - e_created_at e < 3600000)) \<and>
    createExperiment en userId cohort userAttributes d = (d1, Inr r1) \<and>
    env_now en \<le> env_now en2 \<and> env_now en2 - env_now en < 3600000"
  let ?P = "\<lambda>e. e_user_id e = userId \<and> e_cohort e = cohort \<and> e_created_at e > env_now en - 60 * 60 * 1000"
  let ?P2 = "\<lambda>e. e_user_id e = userId \<and> e_cohort e = cohort \<and> e_created_at e > env_now en2 - 60 * 60 * 1000"
  have none: "find ?P (experiments d) = None"
    using a by (auto simp: find_None_iff)
  have none2: "find ?P2 (experiments d) = None"
    using a by (fastforce simp: find_None_iff)
  from createExperiment_created[OF none] a obtain ex m where
        ex: "experiments d1 = experiments d @ [ex]" "e_id ex = result_id r1"
            "e_user_id ex = userId" "e_cohort ex = cohort" "e_created_at ex = env_now en"
    and m: "scheduled_messages d1 = scheduled_messages d @ [m]" "m_experiment_id m = result_id r1"
           "m_status m = ''pending''"
    by blast
  have "?P2 ex" using ex a by simp
  then have "find ?P2 (experiments d1) = Some ex"
    using ex(1) find_append_None[OF none2, of "[ex]"] by simp
  then have "createExperiment en2 userId cohort userAttributes2 d1 = (d1, Inr (Existing ex))"
    by (rule createExperiment_recent)
  then show "\<exists>r2. createExperiment en2 userId cohort userAttributes2 d1 = (d1, Inr r2) \<and>
            result_id r2 = result_id r1"
    using ex(2) by simp
  show "\<exists>ex. experiments d1 = experiments d @ [ex] \<and> e_id ex = result_id r1"
    using ex by blast
  show "\<exists>m. scheduled_messages d1 = scheduled_messages d @ [m] \<and>
           m_experiment_id m = result_id r1 \<and> m_status m = ''pending''"
    using m by blast
qed

theorem createExperiment_idempotent_witness:
  "(\<exists>e\<in>set (experiments st_pending).
      e_user_id e = ''u1'' \<and> e_cohort e = ''checkout_abandoners'' \<and>
      env_now (env_at 60000 ''e2'' ''m2'') - e_created_at e < 3600000) \<and>
   (\<exists>recent\<in>set (experiments st_pending).
      e_id recent = ''e1'' \<and>
      createExperiment (env_at 60000 ''e2'' ''m2'') ''u1'' ''checkout_abandoners'' no_attrs st_pending =
        (st_pending, Inr (Existing recent))) \<and>
   \<not> (\<exists>e\<in>set (experiments st_abandoned).
      e_user_id e = ''u1'' \<and> e_cohort e = ''checkout_abandoners'' \<and>
      env_now (env_at 1900000 ''e2'' ''m2'') - e_created_at e < 3600000) \<and>
   (\<exists>d1 r1 r2.
      createExperiment (env_at 1900000 ''e2'' ''m2'') ''u1'' ''checkout_abandoners'' no_attrs st_abandoned =
        (d1, Inr r1) \<and>
      createExperiment (env_at 1960000 ''e3'' ''m3'') ''u1'' ''checkout_abandoners'' no_attrs d1 =
        (d1, Inr r2) \<and>
      result_id r1 = ''e2'' \<and> result_id r2 = ''e2'' \<and>
      length (scheduled_messages st_abandoned) = 1 \<and> length (scheduled_messages d1) = 2)"
proof -
  let ?en = "env_at 60000 ''e2'' ''m2''"
  have ids: "map e_id (experiments st_pending) = [''e1'']"
    by code_simp
  have h1: "\<exists>e\<in>set (experiments st_pending).
      e_user_id e = ''u1'' \<and> e_cohort e = ''checkout_abandoners'' \<and>
      env_now ?en - e_created_at e < 3600000"
    by code_simp
  then obtain e where e: "e \<in> set (experiments st_pending)"
      "e_user_id e = ''u1'' \<and> e_cohort e = ''checkout_abandoners'' \<and> env_now ?en - e_created_at e < 3600000"
    by blast
  from createExperiment_idempotent[of st_pending "''u1''" "''checkout_abandoners''" ?en no_attrs] e
  obtain recent where r: "recent \<in> set (experiments st_pending)"
      "createExperiment ?en ''u1'' ''checkout_abandoners'' no_attrs st_pending = (st_pending, Inr (Existing recent))"
    by blast
  have "e_id recent \<in> set (map e_id (experiments st_pending))" using r(1) by simp
  then have "e_id recent = ''e1''" unfolding ids by simp
  then have c1: "\<exists>recent\<in>set (experiments st_pending).
      e_id recent = ''e1'' \<and>
      createExperiment ?en ''u1'' ''checkout_abandoners'' no_attrs st_pending =
        (st_pending, Inr (Existing recent))"
    using r by blast
  let ?en1 = "env_at 1900000 ''e2'' ''m2''"
  let ?en2 = "env_at 1960000 ''e3'' ''m3''"
  have h2: "\<not> (\<exists>e\<in>set (experiments st_abandoned).
      e_user_id e = ''u1'' \<and> e_cohort e = ''checkout_abandoners'' \<and>
      env_now ?en1 - e_created_at e < 3600000)"
    by code_simp
  have t: "env_now ?en1 \<le> env_now ?en2 \<and> env_now ?en2 - env_now ?en1 < 3600000"
    by code_simp
  have len: "length (scheduled_messages st_abandoned) = 1"
    by code_simp
  have "case createExperiment ?en1 ''u1'' ''checkout_abandoners'' no_attrs st_abandoned of
          (d1, Inr r1) \<Rightarrow> result_id r1 = ''e2'' | (d1, Inl err) \<Rightarrow> False"
    by code_simp
  then obtain d1 r1 where first:
      "createExperiment ?en1 ''u1'' ''checkout_abandoners'' no_attrs st_abandoned = (d1, Inr r1)"
      "result_id r1 = ''e2''"
    by (auto split: prod.splits sum.splits)
  from createExperiment_idempotent[of st_abandoned "''u1''" "''checkout_abandoners''" ?en1 no_attrs d1 r1 ?en2 no_attrs]
       h2 first(1) t
  obtain r2 m where second:
      "createExperiment ?en2 ''u1'' ''checkout_abandoners'' no_attrs d1 = (d1, Inr r2)"
      "result_id r2 = result_id r1"
      "scheduled_messages d1 = scheduled_messages st_abandoned @ [m]"
    by blast
  have "length (scheduled_messages d1) = 2" using second(3) len by simp
  then have c2: "\<exists>d1 r1 r2.
      createExperiment ?en1 ''u1'' ''checkout_abandoners'' no_attrs st_abandoned = (d1, Inr r1) \<and>
      createExperiment ?en2 ''u1'' ''checkout_abandoners'' no_attrs d1 = (d1, Inr r2) \<and>
      result_id r1 = ''e2'' \<and> result_id r2 = ''e2'' \<and>
      length (scheduled_messages st_abandoned) = 1 \<and> length (scheduled_messages d1) = 2"
    using first second len by auto
  show ?thesis using h1 c1 h2 c2 by blast
qed

section \<open>Exploitation picks among the top five (C4)\<close>

lemma floor_index:
  fixes r :: real
  assumes "0 \<le> r" "r < 1" "0 < n"
  shows "0 \<le> \<lfloor>r * real n\<rfloor> \<and> \<lfloor>r * real n\<rfloor> < int n"
proof -
  have "0 \<le> r * real n" using assms by simp
  then have lo: "0 \<le> \<lfloor>r * real n\<rfloor>" by simp
  have "r * real n < real n" using assms by simp
  then have "\<lfloor>r * real n\<rfloor> < int n" by (simp add: floor_less_iff)
  then show ?thesis using lo by simp
qed

lemma js_index_in_range:
  "0 \<le> i \<Longrightarrow> i < int (length arr) \<Longrightarrow> js_index arr i = Some (arr ! nat i) \<and> nat i < length arr"
  by (simp add: js_index_def)

lemma randomFrom_in_set:
  assumes "0 \<le> r" "r < 1" "arr \<noteq> []"
  shows "\<exists>x\<in>set arr. randomFrom r arr = Some x"
proof -
  have "0 < length arr" using assms(3) by simp
  from floor_index[OF assms(1,2) this] js_index_in_range[of "\<lfloor>r * real (length arr)\<rfloor>" arr]
  show ?thesis by (auto simp: randomFrom_def)
qed

lemma tone_set_nonempty: "tone_set cohort \<noteq> []"
  by (simp add: tone_set_def intelligence_of_def js_get_def cohortIntelligence_def
        checkout_abandoners_def payment_failed_def paywall_bouncers_def
        split: option.splits)





section \<open>Exploitation does not look at the cohort (C10)\<close>

lemma selectCombo_tone:
  "selectCombo rs cohort d = Inr c \<Longrightarrow> c_tone c = randomFrom (r_tone rs) (tone_set cohort)"
  by (auto simp: selectCombo_def Let_def split: if_splits option.splits)

lemma selectCombo_exploit_any_cohort:
  assumes "\<not> r_explore rs < 0.2" "ranked_stats d \<noteq> []"
  shows "map_sum id components (selectCombo rs cohort d) =
         map_sum id components (selectCombo rs cohort' d)"
  using assms by (simp add: selectCombo_def Let_def components_def split: option.splits)

text \<open>
  What holds for every cohort name. First conjunct: a cohort, a store and draws for which
  exploitation returns a timing, a channel and an offer that are none of the cohort's.
  Second: when exploitation fires on a store with an eligible row, the four components
  (or the exception) are the same for every two cohorts. Third: for a tone draw in the
  range of \<^verbatim>\<open>Math.random()\<close>, the tone of every combination returned is an
  element of \<open>tone_set\<close> of the cohort. Fourth and fifth: that set is the cohort's
  own list for a configured cohort, and the list of \<open>checkout_abandoners\<close> for a
  cohort name the lookup yields \<^verbatim>\<open>undefined\<close> for.
\<close>

lemma exploit_ignores_cohort:
  "(\<exists>rs cohort d c i.
      \<not> r_explore rs < 0.2 \<and> selectCombo rs cohort d = Inr c \<and>
      js_get cohortIntelligence cohort = Own i \<and>
      c_timing c \<notin> Some ` set (i_timing i) \<and> c_channel c \<notin> Some ` set (i_channel i) \<and>
      c_offer c \<notin> Some ` set (i_offer i)) \<and>
   (\<forall>rs cohort cohort' d.
      \<not> r_explore rs < 0.2 \<and> ranked_stats d \<noteq> [] \<longrightarrow>
      map_sum id components (selectCombo rs cohort d) =
      map_sum id components (selectCombo rs cohort' d)) \<and>
   (\<forall>rs cohort d c.
      0 \<le> r_tone rs \<and> r_tone rs < 1 \<and> selectCombo rs cohort d = Inr c \<longrightarrow>
      (\<exists>t\<in>set (tone_set cohort). c_tone c = Some t)) \<and>
   (\<forall>cohort i. js_get cohortIntelligence cohort = Own i \<longrightarrow> tone_set cohort = i_tone i) \<and>
   (\<forall>cohort. js_get cohortIntelligence cohort = Absent \<longrightarrow>
      intelligence_of cohort = Some checkout_abandoners \<and>
      tone_set cohort = i_tone checkout_abandoners)"
proof (intro conjI allI impI)
  have v: "selectCombo exploit_draws ''payment_failed'' st_seven_stats =
     Inr \<lparr>c_timing = Some ''2hr'', c_channel = Some ''push'', c_lever = Some ''reciprocity'',
          c_offer = Some ''no_offer'', c_tone = Some ''friendly''\<rparr>"
    by code_simp
  have o: "js_get cohortIntelligence ''payment_failed'' = Own payment_failed"
    by code_simp
  have e: "\<not> r_explore exploit_draws < 0.2"
    by code_simp
  have out: "Some ''2hr'' \<notin> Some ` set (i_timing payment_failed)"
            "Some ''push'' \<notin> Some ` set (i_channel payment_failed)"
            "Some ''no_offer'' \<notin> Some ` set (i_offer payment_failed)"
    by (simp_all add: payment_failed_def)
  let ?c = "\<lparr>c_timing = Some ''2hr'', c_channel = Some ''push'', c_lever = Some ''reciprocity'',
          c_offer = Some ''no_offer'', c_tone = Some ''friendly''\<rparr>"
  have "\<not> r_explore exploit_draws < 0.2 \<and>
      selectCombo exploit_draws ''payment_failed'' st_seven_stats = Inr ?c \<and>
      js_get cohortIntelligence ''payment_failed'' = Own payment_failed \<and>
      c_timing ?c \<notin> Some ` set (i_timing payment_failed) \<and>
      c_channel ?c \<notin> Some ` set (i_channel payment_failed) \<and>
      c_offer ?c \<notin> Some ` set (i_offer payment_failed)"
    using v o e out by simp
  then show "\<exists>rs cohort d c i.
      \<not> r_explore rs < 0.2 \<and> selectCombo rs cohort d = Inr c \<and>
      js_get cohortIntelligence cohort = Own i \<and>
      c_timing c \<notin> Some ` set (i_timing i) \<and> c_channel c \<notin> Some ` set (i_channel i) \<and>
      c_offer c \<notin> Some ` set (i_offer i)"
    by blast
next
  fix rs :: select_draws and cohort cohort' :: string and d :: db
  assume "\<not> r_explore rs < 0.2 \<and> ranked_stats d \<noteq> []"
  then show "map_sum id components (selectCombo rs cohort d) =
      map_sum id components (selectCombo rs cohort' d)"
    using selectCombo_exploit_any_cohort by blast
next
  fix rs :: select_draws and cohort :: string and d :: db and c :: combo
  assume a: "0 \<le> r_tone rs \<and> r_tone rs < 1 \<and> selectCombo rs cohort d = Inr c"
  then have "c_tone c = randomFrom (r_tone rs) (tone_set cohort)"
    using selectCombo_tone by blast
  then show "\<exists>t\<in>set (tone_set cohort). c_tone c = Some t"
    using randomFrom_in_set[of "r_tone rs" "tone_set cohort"] a tone_set_nonempty by auto
next
  fix cohort i
  assume "js_get cohortIntelligence cohort = Own i"
  then show "tone_set cohort = i_tone i"
    by (simp add: tone_set_def intelligence_of_def)
next
  fix cohort
  assume a: "js_get cohortIntelligence cohort = Absent"
  then show "intelligence_of cohort = Some checkout_abandoners"
    by (simp add: intelligence_of_def)
  from a show "tone_set cohort = i_tone checkout_abandoners"
    by (simp add: tone_set_def intelligence_of_def)
qed

text \<open>
  C10 (implicit): in the exploit branch the eligible ComboStats are taken from all
  cohorts, without a filter on the requested one, so for some cohort and statistics the
  selected timing, channel, lever or offer lies outside the value sets of that cohort;
  only the tone is sure to come from the tone set of the cohort, with the sets of
  \<open>checkout_abandoners\<close> used for any unrecognized cohort.

  The code misses the last part for a cohort named like a property of
  \<^verbatim>\<open>Object.prototype\<close>, which \<^verbatim>\<open>POST /api/trigger\<close>
  accepts as it accepts any other text. The lookup
  \<^verbatim>\<open>cohortIntelligence[cohort]\<close> then yields an inherited value, which is
  truthy, so the \<^verbatim>\<open>||\<close> written for unrecognized cohorts does not take the
  sets of \<open>checkout_abandoners\<close>. On the empty store the unrecognized cohort
  \<open>win_back\<close> gets a combination from those sets, and the cohort
  \<open>constructor\<close> gets a TypeError (the explore branch reads the length of a timing
  list that is not there), so the request creates nothing. On the store after five
  triggers and a dispatcher run, where exploitation fires, \<open>win_back\<close> gets the tone
  \<open>urgent\<close> of \<open>checkout_abandoners\<close> and \<open>constructor\<close> gets
  \<open>friendly\<close>, the default of \<^verbatim>\<open>intelligence.tone || ['friendly']\<close>,
  which is no tone of \<open>checkout_abandoners\<close>; the experiment the trigger stores
  carries it.
\<close>

theorem inherited_cohort_misses_fallback:
  "js_get cohortIntelligence ''win_back'' = Absent \<and>
   js_get cohortIntelligence ''constructor'' = Inherited \<and>
   selectCombo first_draws ''win_back'' defaultData =
     Inr \<lparr>c_timing = Some ''2min'', c_channel = Some ''whatsapp'', c_lever = Some ''scarcity'',
          c_offer = Some ''discount_50'', c_tone = Some ''urgent''\<rparr> \<and>
   selectCombo first_draws ''constructor'' defaultData = Inl TypeError \<and>
   createExperiment env0 ''u1'' ''constructor'' no_attrs defaultData = (defaultData, Inl TypeError) \<and>
   selectCombo first_draws ''win_back'' st_five_sends =
     Inr \<lparr>c_timing = Some ''2min'', c_channel = Some ''whatsapp'', c_lever = Some ''scarcity'',
          c_offer = Some ''discount_50'', c_tone = Some ''urgent''\<rparr> \<and>
   selectCombo first_draws ''constructor'' st_five_sends =
     Inr \<lparr>c_timing = Some ''2min'', c_channel = Some ''whatsapp'', c_lever = Some ''scarcity'',
          c_offer = Some ''discount_50'', c_tone = Some ''friendly''\<rparr> \<and>
   ''friendly'' \<notin> set (i_tone checkout_abandoners) \<and>
   map e_tone
     (experiments
        (fst (exec (Trigger (env_at 300000 ''e6'' ''m6'') ''u6'' ''constructor'' no_attrs)
                st_five_sends))) =
     [Some ''urgent'', Some ''urgent'', Some ''urgent'', Some ''urgent'', Some ''urgent'',
      Some ''friendly'']"
  by code_simp

section \<open>Tone renderings of the composer (C9)\<close>





section \<open>Timing values in the store\<close>

text \<open>
  Every timing the engine stores comes from the cohort table, directly (the explore
  branch) or from a statistics row written from an experiment (the exploit branch), so
  \<open>timings_known\<close> holds of every store reached from the empty one. None of these
  values is the name of a property inherited from \<^verbatim>\<open>Object.prototype\<close>.
\<close>

lemma cohort_timings_own: "list_all (\<lambda>t. t \<notin> set object_prototype_keys) cohort_timings"
  by code_simp

lemma undefined_not_inherited: "''undefined'' \<notin> set object_prototype_keys"
  by code_simp

lemma known_timing_not_inherited:
  "known_timing timing \<Longrightarrow> to_key timing \<notin> set object_prototype_keys"
proof (cases timing)
  case None
  then show ?thesis using undefined_not_inherited by (simp add: to_key_def)
next
  case (Some t)
  assume "known_timing timing"
  then have "t \<in> set cohort_timings" using Some by (simp add: known_timing_def)
  then show ?thesis using cohort_timings_own Some by (simp add: list_all_iff to_key_def)
qed

lemma js_index_Some_set: "js_index xs i = Some x \<Longrightarrow> x \<in> set xs"
proof -
  assume a: "js_index xs i = Some x"
  then have "0 \<le> i" "i < int (length xs)" "x = xs ! nat i"
    by (auto simp: js_index_def split: if_splits)
  then have "nat i < length xs" "x = xs ! nat i" by linarith+
  then show ?thesis by simp
qed

lemma randomFrom_cases: "randomFrom r xs = None \<or> (\<exists>x\<in>set xs. randomFrom r xs = Some x)"
  by (cases "randomFrom r xs") (auto simp: randomFrom_def dest: js_index_Some_set)

lemma intelligence_of_timings:
  assumes "intelligence_of cohort = Some i"
  shows "set (i_timing i) \<subseteq> set cohort_timings"
proof -
  have "(\<exists>name. (name, i) \<in> set cohortIntelligence)"
  proof (cases "js_get cohortIntelligence cohort")
    case (Own v)
    then have "map_of cohortIntelligence cohort = Some i" using assms
      by (auto simp: intelligence_of_def js_get_def split: option.splits if_splits)
    then show ?thesis by (blast dest: map_of_SomeD)
  next
    case Inherited
    then show ?thesis using assms by (simp add: intelligence_of_def)
  next
    case Absent
    then have "i = checkout_abandoners" using assms by (simp add: intelligence_of_def)
    then show ?thesis by (auto simp: cohortIntelligence_def)
  qed
  then show ?thesis by (auto simp: cohort_timings_def)
qed

lemma selectCombo_known:
  assumes stats: "list_all (\<lambda>s. known_timing (s_timing s)) (combo_stats d)"
      and sel: "selectCombo rs cohort d = Inr c"
  shows "known_timing (c_timing c)"
proof (cases "\<not> r_explore rs < 0.2 \<and> length (ranked_stats d) > 0")
  case True
  then obtain selected where
      pick: "js_index (take 5 (ranked_stats d))
               \<lfloor>r_pick rs * real (length (take 5 (ranked_stats d)))\<rfloor> = Some selected"
      and c: "c_timing c = s_timing selected"
    using sel by (auto simp: selectCombo_def Let_def split: option.splits)
  from pick have "selected \<in> set (take 5 (ranked_stats d))"
    by (rule js_index_Some_set)
  then have "selected \<in> set (ranked_stats d)" by (rule in_set_takeD)
  then have "selected \<in> set (combo_stats d)" by (simp add: ranked_stats_def)
  then show ?thesis using stats c by (simp add: list_all_iff)
next
  case False
  then obtain i where i: "intelligence_of cohort = Some i"
      and c: "c_timing c = randomFrom (r_timing rs) (i_timing i)"
    using sel by (auto simp: selectCombo_def Let_def split: option.splits)
  show ?thesis
    using randomFrom_cases[of "r_timing rs" "i_timing i"] intelligence_of_timings[OF i] c
    by (auto simp: known_timing_def)
qed

lemma list_all_mutate_first:
  "list_all P xs \<Longrightarrow> (\<And>x. P x \<Longrightarrow> P (f x)) \<Longrightarrow> list_all P (mutate_first p f xs)"
  by (induction xs) auto

lemma updateComboStats_known:
  assumes "timings_known d" "known_timing (e_timing ex)"
  shows "timings_known (updateComboStats now key ex converted d)"
proof (cases "find (\<lambda>s. s_combo_key s = key) (combo_stats d)")
  case None
  then show ?thesis using assms by (simp add: timings_known_def updateComboStats_def)
next
  case (Some stats)
  have "list_all (\<lambda>s. known_timing (s_timing s))
          (mutate_first (\<lambda>s. s_combo_key s = key)
             (\<lambda>s. s\<lparr>s_sent_count := s_sent_count s + 1,
                     s_converted_count :=
                       (if converted then s_converted_count s + 1 else s_converted_count s),
                     s_last_updated := now\<rparr>)
             (combo_stats d))"
    using assms(1) by (intro list_all_mutate_first) (simp_all add: timings_known_def)
  then show ?thesis using assms(1) Some by (simp add: timings_known_def updateComboStats_def)
qed

lemma conversion_candidate_bound:
  "conversion_candidate u es = Some i \<Longrightarrow> i < length es"
proof -
  assume a: "conversion_candidate u es = Some i"
  let ?ks = "filter (\<lambda>i. e_user_id (es ! i) = u \<and> e_status (es ! i) \<in> set [''sent'', ''opened''])
               [0..<length es]"
  from a obtain rest where "sort_key (\<lambda>i. - e_created_at (es ! i)) ?ks = i # rest"
    by (auto simp: conversion_candidate_def split: list.splits)
  then have "i \<in> set (sort_key (\<lambda>i. - e_created_at (es ! i)) ?ks)" by simp
  then have "i \<in> set ?ks" by simp
  then show ?thesis by simp
qed

lemma checkForConversion_known:
  assumes "timings_known d"
  shows "timings_known (checkForConversion now u ty d)"
proof (cases "ty = ''trial_activated''")
  case False
  then show ?thesis using assms by (simp add: checkForConversion_def timings_known_def)
next
  case True
  let ?d2 = "d\<lparr>user_journey := mark_checked u ''trial_initiated'' (user_journey d)\<rparr>"
  have k2: "timings_known ?d2" using assms by (simp add: timings_known_def)
  show ?thesis
  proof (cases "conversion_candidate u (experiments d)")
    case None
    then show ?thesis using True k2 by (simp add: checkForConversion_def)
  next
    case (Some i)
    then have i: "i < length (experiments d)" by (rule conversion_candidate_bound)
    define ex where "ex = (experiments d ! i)\<lparr>e_converted_at := Some now, e_status := ''converted''\<rparr>"
    define d3 where "d3 = ?d2\<lparr>experiments := (experiments d)[i := ex]\<rparr>"
    have old: "known_timing (e_timing (experiments d ! i))"
      using assms i by (simp add: timings_known_def list_all_length)
    then have kex: "known_timing (e_timing ex)" by (simp add: ex_def)
    have "list_all (\<lambda>e. known_timing (e_timing e)) ((experiments d)[i := ex])"
      using assms kex
      by (auto simp: timings_known_def list_all_iff dest!: set_update_subset_insert[THEN subsetD])
    then have k3: "timings_known d3" using assms by (simp add: d3_def timings_known_def)
    have "checkForConversion now u ty d = updateComboStats now (comboKey_of ex) ex True d3"
      using True Some by (simp add: checkForConversion_def Let_def ex_def d3_def)
    then show ?thesis using updateComboStats_known[OF k3 kex] by simp
  qed
qed

lemma createExperiment_known:
  assumes "timings_known d"
  shows "timings_known (fst (createExperiment en u c a d))"
proof (cases "find (\<lambda>e. e_user_id e = u \<and> e_cohort e = c \<and>
                         e_created_at e > env_now en - 60 * 60 * 1000) (experiments d)")
  case (Some recent)
  then show ?thesis using assms by (simp add: createExperiment_def)
next
  case None
  show ?thesis
  proof (cases "selectCombo (env_select en) c d")
    case (Inl err)
    then show ?thesis using None assms by (simp add: createExperiment_def)
  next
    case cb: (Inr cb)
    have k: "known_timing (c_timing cb)"
      using selectCombo_known[OF _ cb] assms by (simp add: timings_known_def)
    show ?thesis
    proof (cases "generateMessage (env_message en) cb a")
      case (Inl err)
      then show ?thesis using None cb assms by (simp add: createExperiment_def)
    next
      case m: (Inr message)
      show ?thesis
      proof (cases "sendAt_of (env_zone en) (env_now en) (c_timing cb)")
        case (Inl err)
        then show ?thesis using None cb m assms k
          by (simp add: createExperiment_def Let_def timings_known_def)
      next
        case (Inr sendAt)
        then show ?thesis using None cb m assms k
          by (simp add: createExperiment_def Let_def timings_known_def)
      qed
    qed
  qed
qed

lemma handle_event_known:
  assumes "timings_known d"
  shows "timings_known (fst (handle_event en ev d))"
proof (cases "truthy (if truthy (ev_user_id ev) then ev_user_id ev else ev_device_id ev)")
  case False
  then show ?thesis using assms by (simp add: handle_event_def Let_def)
next
  case True
  define u where "u = the (if truthy (ev_user_id ev) then ev_user_id ev else ev_device_id ev)"
  define d1 where "d1 = checkForConversion (env_now en) u (ev_event_type ev) d"
  have k1: "timings_known d1" unfolding d1_def using assms by (rule checkForConversion_known)
  show ?thesis
  proof (cases "js_get eventConfig (ev_event_type ev)")
    case (Own rule)
    show ?thesis
    proof (cases rule)
      case (Waits w t c)
      then show ?thesis using True Own k1
        by (simp add: handle_event_def Let_def u_def d1_def timings_known_def)
    next
      case (Immediate c)
      define props where "props = (case ev_properties ev of Some p \<Rightarrow> p
                                   | None \<Rightarrow> \<lparr>a_name = None, a_region = None\<rparr>)"
      obtain d2 r where ce: "createExperiment en u c props d1 = (d2, r)"
        by (cases "createExperiment en u c props d1") auto
      then have "timings_known d2" using createExperiment_known[OF k1, of en u c props] by simp
      then show ?thesis using True Own Immediate ce
        by (cases r)
           (simp_all add: handle_event_def Let_def u_def[symmetric] d1_def[symmetric]
              props_def[symmetric])
    qed
  next
    case Inherited
    then show ?thesis using True k1 by (simp add: handle_event_def Let_def u_def d1_def)
  next
    case Absent
    then show ?thesis using True k1 by (simp add: handle_event_def Let_def u_def d1_def)
  qed
qed

lemma set_checked_known: "timings_known d \<Longrightarrow> timings_known (set_checked i d)"
  by (simp add: set_checked_def timings_known_def)

lemma sweep_loop_known:
  "timings_known d \<Longrightarrow> timings_known (fst (sweep_loop envs todo d ab))"
proof (induction todo arbitrary: d ab)
  case Nil
  then show ?case by simp
next
  case (Cons i rest)
  let ?j = "user_journey d ! i"
  show ?case
  proof (cases "js_get eventConfig (j_event_type ?j)")
    case (Own rule)
    show ?thesis
    proof (cases rule)
      case (Immediate c)
      then show ?thesis using Own Cons by (simp add: Let_def)
    next
      case (Waits w t c)
      show ?thesis
      proof (cases "followUp_of ?j w d")
        case (Some f)
        then show ?thesis using Own Waits Cons.IH[OF set_checked_known[OF Cons.prems]]
          by (simp add: Let_def)
      next
        case None
        obtain d1 r where ce: "createExperiment (envs i) (j_user_id ?j) c (j_properties ?j) d = (d1, r)"
          by (cases "createExperiment (envs i) (j_user_id ?j) c (j_properties ?j) d") auto
        have k1: "timings_known d1"
          using createExperiment_known[OF Cons.prems, of "envs i" "j_user_id ?j" c "j_properties ?j"] ce
          by simp
        show ?thesis
        proof (cases r)
          case (Inl err)
          then show ?thesis using Own Waits None ce k1 by (simp add: Let_def)
        next
          case (Inr res)
          then show ?thesis using Own Waits None ce Cons.IH[OF set_checked_known[OF k1]]
            by (simp add: Let_def)
        qed
      qed
    qed
  next
    case Inherited
    then show ?thesis using Cons by (simp add: Let_def)
  next
    case Absent
    then show ?thesis using Cons by (simp add: Let_def)
  qed
qed

lemma dispatch_loop_known:
  "timings_known d \<Longrightarrow> timings_known (fst (dispatch_loop ct clock ks d trace))"
proof (induction ks arbitrary: d trace)
  case Nil
  then show ?case by simp
next
  case (Cons k rest)
  let ?msg = "scheduled_messages d ! k"
  show ?case
  proof (cases "find (\<lambda>e. e_id e = m_experiment_id ?msg) (experiments d)")
    case None
    then show ?thesis using Cons by (simp add: Let_def)
  next
    case (Some ex)
    then have "ex \<in> set (experiments d)" by (auto simp: find_Some_iff)
    then have kex: "known_timing (e_timing ex)"
      using Cons.prems by (simp add: timings_known_def list_all_iff)
    define d2 where "d2 = d\<lparr>scheduled_messages := (scheduled_messages d)[k := ?msg\<lparr>m_status := ''sent''\<rparr>],
                           experiments :=
                             mutate_first (\<lambda>e. e_id e = m_experiment_id ?msg)
                               (\<lambda>e. e\<lparr>e_sent_at := Some (clock k), e_status := ''sent''\<rparr>)
                               (experiments d)\<rparr>"
    have "list_all (\<lambda>e. known_timing (e_timing e))
            (mutate_first (\<lambda>e. e_id e = m_experiment_id ?msg)
               (\<lambda>e. e\<lparr>e_sent_at := Some (clock k), e_status := ''sent''\<rparr>) (experiments d))"
      using Cons.prems by (intro list_all_mutate_first) (simp_all add: timings_known_def)
    then have k2: "timings_known d2" using Cons.prems by (simp add: d2_def timings_known_def)
    have k3: "timings_known (updateComboStats (clock k) (comboKey_of ex) ex False d2)"
      using k2 kex by (rule updateComboStats_known)
    show ?thesis using Some Cons.IH[OF k3] by (simp add: Let_def d2_def)
  qed
qed

lemma exec_known: "timings_known d \<Longrightarrow> timings_known (fst (exec p d))"
proof (cases p)
  case (Webhook en ev)
  assume "timings_known d"
  then show ?thesis using Webhook by (simp add: handle_event_known)
next
  case (Sweep now envs)
  assume "timings_known d"
  then show ?thesis using Sweep sweep_loop_known[of d envs "pendingChecks now d" "[]"]
    by (auto simp: sweep_def split: prod.splits)
next
  case (Dispatch now ct clock)
  assume "timings_known d"
  then show ?thesis using Dispatch by (simp add: dispatch_def dispatch_loop_known)
next
  case (Trigger en u c a)
  assume "timings_known d"
  then show ?thesis using Trigger by (simp add: createExperiment_known)
next
  case Experiments
  assume "timings_known d"
  then show ?thesis using Experiments by (simp add: timings_known_def list_all_iff)
qed

lemma run_known: "timings_known d \<Longrightarrow> timings_known (fst (run ps d))"
proof (induction ps arbitrary: d)
  case Nil
  then show ?case by simp
next
  case (Cons p ps)
  have "fst (run (p # ps) d) = fst (run ps (fst (exec p d)))"
    by (simp split: prod.splits)
  then show ?case using Cons.IH[OF exec_known[OF Cons.prems]] by simp
qed

lemma defaultData_known: "timings_known defaultData"
  by (simp add: timings_known_def defaultData_def)

section \<open>The send time (C8)\<close>

text \<open>
  What lines 419 to 430 do for single timing values: the six fixed offsets, the two day
  parts, one minute for \<open>payday\<close> and for every value the table has no entry for, and
  an exception for a value named like an inherited property (which no store reached from
  the empty one holds, see above).
\<close>

lemma sendAt_of_fixed_offsets:
  "sendAt_of z now (Some ''2min'') = Inr (now + 2 * 60 * 1000)"
  "sendAt_of z now (Some ''5min'') = Inr (now + 5 * 60 * 1000)"
  "sendAt_of z now (Some ''30min'') = Inr (now + 30 * 60 * 1000)"
  "sendAt_of z now (Some ''1hr'') = Inr (now + 60 * 60 * 1000)"
  "sendAt_of z now (Some ''2hr'') = Inr (now + 2 * 60 * 60 * 1000)"
  "sendAt_of z now (Some ''4hr'') = Inr (now + 4 * 60 * 60 * 1000)"
  by (simp_all add: sendAt_of_def js_get_def delays_def to_key_def)

lemma sendAt_of_day_parts:
  "sendAt_of z now (Some ''next_morning'') = Inr (getNextTime z now 8 0)"
  "sendAt_of z now (Some ''next_evening'') = Inr (getNextTime z now 19 0)"
  by (simp_all add: sendAt_of_def js_get_def delays_def to_key_def)

lemma sendAt_of_payday: "sendAt_of z now (Some ''payday'') = Inr (now + 60000)"
  by (simp add: sendAt_of_def js_get_def delays_def to_key_def)

lemma delays_not_inherited: "list_all (\<lambda>k. map_of delays k = None) object_prototype_keys"
  by code_simp

lemma sendAt_of_inherited:
  assumes "timing \<in> set object_prototype_keys"
  shows "sendAt_of z now (Some timing) = Inl RangeError"
proof -
  have "map_of delays timing = None"
    using assms delays_not_inherited by (simp add: list_all_iff)
  then have "js_get delays timing = Inherited" using assms by (simp add: js_get_def)
  then show ?thesis by (simp add: sendAt_of_def to_key_def)
qed

lemma delays_nonzero: "map_of delays t = Some (Some ms) \<Longrightarrow> ms \<noteq> 0"
  by (auto simp: delays_def split: if_splits)

lemma delays_day_parts:
  "map_of delays ''next_morning'' = Some None" "map_of delays ''next_evening'' = Some None"
  by (simp_all add: delays_def)

text \<open>
  The time of day \<open>hour:00\<close> lies within the day, so a local time made of it has the
  day and the time of day it was made of.
\<close>

lemma MakeTime_within_day:
  "0 \<le> hour \<Longrightarrow> hour < 24 \<Longrightarrow> 0 \<le> MakeTime hour 0 0 0 \<and> MakeTime hour 0 0 0 < msPerDay"
  by (simp add: MakeTime_def msPerDay_def)

lemma MakeDate_parts:
  assumes "0 \<le> t" "t < msPerDay"
  shows "Day (MakeDate day t) = day" "TimeWithinDay (MakeDate day t) = t"
proof -
  have "(day * 86400000 + t) div 86400000 = day + t div 86400000" by simp
  moreover have "t div 86400000 = 0" using assms by (simp add: msPerDay_def)
  ultimately show "Day (MakeDate day t) = day" by (simp add: Day_def MakeDate_def msPerDay_def)
  have "(day * 86400000 + t) mod 86400000 = t mod 86400000" by simp
  moreover have "t mod 86400000 = t" using assms by (simp add: msPerDay_def)
  ultimately show "TimeWithinDay (MakeDate day t) = t"
    by (simp add: TimeWithinDay_def MakeDate_def msPerDay_def)
qed

text \<open>
  \<open>getNextTime\<close> is the rule of the specification when the hour is on the local clock
  today: \<^verbatim>\<open>setHours\<close> gives today's instant, and
  \<^verbatim>\<open>setDate(getDate() + 1)\<close>, which starts from the local time that instant
  shows, gives tomorrow's.
\<close>

lemma getNextTime_rule:
  assumes hour: "0 \<le> hour" "hour < 24" and clock: "on_the_clock z now hour"
  shows "getNextTime z now hour 0 = next_occurrence z now hour"
proof -
  have today: "setHours z now hour 0 = today_at z now hour"
    by (simp add: setHours_def today_at_def)
  have shown: "LocalTime z (today_at z now hour) =
               MakeDate (Day (LocalTime z now)) (MakeTime hour 0 0 0)"
    using clock by (simp add: on_the_clock_def)
  have "setDate_next z (today_at z now hour) = tomorrow_at z now hour"
    using MakeDate_parts[of "MakeTime hour 0 0 0" "Day (LocalTime z now)"]
          MakeTime_within_day[OF hour]
    by (simp add: setDate_next_def Let_def shown tomorrow_at_def)
  then show ?thesis by (simp add: getNextTime_def Let_def today next_occurrence_def)
qed

text \<open>
  When a change of the clocks skips the hour, the two differ: at 04:00 local of the day
  the clocks of \<open>summer_zone\<close> went from 02:00 to 03:00, the code rolls
  \<open>02:00\<close> to 03:00 of the following day, the time the clock showed instead.
\<close>

lemma skipped_hour_rolls_from_shown_time:
  "\<not> on_the_clock summer_zone 7200000 2 \<and>
   getNextTime summer_zone 7200000 2 0 = 90000000 \<and>
   next_occurrence summer_zone 7200000 2 = 86400000"
  by code_simp

lemma next_occurrence_reading:
  assumes hour: "0 \<le> hour" "hour < 24" and clock: "on_the_clock z now hour"
  shows "TimeWithinDay (LocalTime z (next_occurrence z now hour)) = MakeTime hour 0 0 0"
    and "Day (LocalTime z (next_occurrence z now hour)) =
         (if today_at z now hour \<le> now then Day (LocalTime z now) + 1 else Day (LocalTime z now))"
  using clock MakeTime_within_day[OF hour]
        MakeDate_parts[of "MakeTime hour 0 0 0" "Day (LocalTime z now)"]
        MakeDate_parts[of "MakeTime hour 0 0 0" "Day (LocalTime z now) + 1"]
  by (simp_all add: next_occurrence_def on_the_clock_def)

lemma next_occurrence_ahead:
  assumes step: "z_offset_of_local z (MakeDate (Day (LocalTime z now) + 1) (MakeTime hour 0 0 0))
                   \<le> z_offset_at z now + MakeTime hour 0 0 0"
  shows "now < next_occurrence z now hour"
proof (cases "today_at z now hour \<le> now")
  case False
  then show ?thesis by (simp add: next_occurrence_def)
next
  case True
  define l where "l = LocalTime z now"
  define q where "q = l div 86400000"
  have "l mod 86400000 < 86400000" by simp
  moreover have "l = q * 86400000 + l mod 86400000" by (simp add: q_def)
  ultimately have before_midnight: "l < q * 86400000 + 86400000" by linarith
  have "now = l - z_offset_at z now" by (simp add: l_def LocalTime_def)
  moreover have "tomorrow_at z now hour =
      q * 86400000 + 86400000 + MakeTime hour 0 0 0 -
      z_offset_of_local z (MakeDate (Day (LocalTime z now) + 1) (MakeTime hour 0 0 0))"
    by (simp add: tomorrow_at_def UTC_def MakeDate_def Day_def msPerDay_def l_def q_def
          algebra_simps)
  ultimately have "now < tomorrow_at z now hour" using before_midnight step by linarith
  then show ?thesis using True by (simp add: next_occurrence_def)
qed

lemma sendAt_of_rule:
  assumes own: "to_key timing \<notin> set object_prototype_keys"
      and clock: "target_on_clock z now timing"
  shows "sendAt_of z now timing = Inr (scheduled_time z now timing)"
proof -
  have get: "js_get delays (to_key timing) =
             (case map_of delays (to_key timing) of Some v \<Rightarrow> Own v | None \<Rightarrow> Absent)"
    using own by (simp add: js_get_def split: option.splits)
  have morning: "timing = Some ''next_morning'' \<Longrightarrow> getNextTime z now 8 0 = next_occurrence z now 8"
    using clock by (intro getNextTime_rule) (simp_all add: target_on_clock_def day_part_hour_def)
  have evening: "timing = Some ''next_evening'' \<Longrightarrow> getNextTime z now 19 0 = next_occurrence z now 19"
    using clock by (intro getNextTime_rule) (simp_all add: target_on_clock_def day_part_hour_def)
  show ?thesis
  proof (cases timing)
    case None
    have "map_of delays ''undefined'' = None" by (simp add: delays_def)
    then show ?thesis using None get
      by (simp add: sendAt_of_def scheduled_time_def fixed_offset_def to_key_def)
  next
    case (Some t)
    show ?thesis
    proof (cases "map_of delays t")
      case None
      then show ?thesis using Some get morning evening
        by (simp add: sendAt_of_def scheduled_time_def fixed_offset_def to_key_def)
    next
      case entry: (Some v)
      show ?thesis
      proof (cases v)
        case None
        then show ?thesis using Some entry get morning evening
          by (simp add: sendAt_of_def scheduled_time_def fixed_offset_def to_key_def)
      next
        case (Some ms)
        then have "ms \<noteq> 0" using entry delays_nonzero by blast
        then show ?thesis using \<open>timing = Some t\<close> entry Some get
          by (simp add: sendAt_of_def scheduled_time_def fixed_offset_def to_key_def)
      qed
    qed
  qed
qed

lemma sendAt_of_returns:
  assumes "to_key timing \<notin> set object_prototype_keys"
  shows "\<exists>t. sendAt_of z now timing = Inr t"
proof -
  have "js_get delays (to_key timing) \<noteq> Inherited"
    using assms by (simp add: js_get_def split: option.splits)
  then show ?thesis
    by (cases "js_get delays (to_key timing)")
       (auto simp: sendAt_of_def Let_def split: option.splits)
qed

text \<open>
  A call of \<^verbatim>\<open>createExperiment\<close> on a store with known timings selects a
  known timing, so it does not end in the RangeError, and a call that creates stores the
  send time it returns in the scheduled send it appends.
\<close>

lemma createExperiment_sendAt:
  assumes known: "timings_known d"
      and res: "createExperiment en u c a d = (d', r)"
  shows "r \<noteq> Inl RangeError"
    and "r = Inr (Created i cb m t) \<Longrightarrow>
         known_timing (c_timing cb) \<and>
         sendAt_of (env_zone en) (env_now en) (c_timing cb) = Inr t \<and>
         scheduled_messages d' = scheduled_messages d @
           [\<lparr>m_id = env_uuid2 en, m_experiment_id = i, m_user_id = u, m_send_at = t,
             m_status = ''pending''\<rparr>]"
proof -
  have both: "r \<noteq> Inl RangeError \<and>
     (r = Inr (Created i cb m t) \<longrightarrow>
        known_timing (c_timing cb) \<and>
        sendAt_of (env_zone en) (env_now en) (c_timing cb) = Inr t \<and>
        scheduled_messages d' = scheduled_messages d @
          [\<lparr>m_id = env_uuid2 en, m_experiment_id = i, m_user_id = u, m_send_at = t,
            m_status = ''pending''\<rparr>])"
  proof (cases "find (\<lambda>e. e_user_id e = u \<and> e_cohort e = c \<and>
                           e_created_at e > env_now en - 60 * 60 * 1000) (experiments d)")
    case (Some recent)
    then show ?thesis using res by (auto simp: createExperiment_def)
  next
    case None
    show ?thesis
    proof (cases "selectCombo (env_select en) c d")
      case (Inl err)
      then have "err = TypeError"
        by (auto simp: selectCombo_def Let_def split: if_splits option.splits)
      then show ?thesis using None Inl res by (auto simp: createExperiment_def)
    next
      case sel: (Inr cb')
      have k: "known_timing (c_timing cb')"
        using selectCombo_known[OF _ sel] known by (simp add: timings_known_def)
      show ?thesis
      proof (cases "generateMessage (env_message en) cb' a")
        case (Inl err)
        then have "err = TypeError"
          by (auto simp: generateMessage_def Let_def split: option.splits)
        then show ?thesis using None sel Inl res by (auto simp: createExperiment_def)
      next
        case msg: (Inr message)
        obtain t' where t': "sendAt_of (env_zone en) (env_now en) (c_timing cb') = Inr t'"
          using sendAt_of_returns[OF known_timing_not_inherited[OF k]] by blast
        then show ?thesis using None sel msg res k
          by (auto simp: createExperiment_def Let_def)
      qed
    qed
  qed
  from both show "r \<noteq> Inl RangeError" by simp
  assume "r = Inr (Created i cb m t)"
  then show "known_timing (c_timing cb) \<and>
         sendAt_of (env_zone en) (env_now en) (c_timing cb) = Inr t \<and>
         scheduled_messages d' = scheduled_messages d @
           [\<lparr>m_id = env_uuid2 en, m_experiment_id = i, m_user_id = u, m_send_at = t,
             m_status = ''pending''\<rparr>]"
    using both by simp
qed

text \<open>
  C8: \<^verbatim>\<open>createExperiment\<close> computes the send time from the timing of the
  selected combination: a timing with a fixed offset in the lookup table (2min through
  4hr) yields now plus that offset; \<open>next_morning\<close> and \<open>next_evening\<close> yield the
  next occurrence of 08:00 and 19:00 local, rolled to the following day if that time of
  day has already passed today; any other timing value, as \<open>payday\<close>, yields now plus
  one minute.

  First conjunct: the six fixed offsets and \<open>payday\<close>, value by value. Second: for
  every timing value that is not the name of an inherited property, the code computes
  \<open>scheduled_time\<close>, the rule in the words of the specification; for the two day
  parts this asks that the local clock shows the hour today and tomorrow (when a change
  of the clocks skips today's, \<^verbatim>\<open>setDate\<close> starts from the later time
  the clock does show). Third: the instant of the rule reads as that hour on the local
  clock, today if today's is still ahead and on the following day otherwise. Fourth: it
  lies after now, provided the clocks are not put forward by more than the hour in
  between (the offset at tomorrow's local time is at most the one now plus the hour). Fifth: every store the engine reaches from the empty one, by any sequence of
  webhook events, sweeps, dispatcher runs, triggers and listings, holds only timings of
  the cohort table. Sixth: on such a store no call of \<^verbatim>\<open>createExperiment\<close>
  ends in the RangeError of an invalid date, the timing a creating call selects is no
  inherited name, the send time it returns is the one of the rule, and it is the
  \<^verbatim>\<open>send_at\<close> of the scheduled send the call appends.
\<close>

theorem sendAt_follows_timing:
  "(\<forall>z now.
      map (\<lambda>t. sendAt_of z now (Some t))
        [''2min'', ''5min'', ''30min'', ''1hr'', ''2hr'', ''4hr'', ''payday''] =
      map (\<lambda>ms. Inr (now + ms))
        [2 * 60 * 1000, 5 * 60 * 1000, 30 * 60 * 1000, 60 * 60 * 1000, 2 * 60 * 60 * 1000,
         4 * 60 * 60 * 1000, 60000]) \<and>
   (\<forall>z now timing.
      to_key timing \<notin> set object_prototype_keys \<and> target_on_clock z now timing \<longrightarrow>
      sendAt_of z now timing = Inr (scheduled_time z now timing)) \<and>
   (\<forall>z now hour.
      0 \<le> hour \<and> hour < 24 \<and> on_the_clock z now hour \<longrightarrow>
      TimeWithinDay (LocalTime z (next_occurrence z now hour)) = MakeTime hour 0 0 0 \<and>
      Day (LocalTime z (next_occurrence z now hour)) =
        (if today_at z now hour \<le> now then Day (LocalTime z now) + 1
         else Day (LocalTime z now))) \<and>
   (\<forall>z now hour.
      z_offset_of_local z (MakeDate (Day (LocalTime z now) + 1) (MakeTime hour 0 0 0))
        \<le> z_offset_at z now + MakeTime hour 0 0 0 \<longrightarrow>
      now < next_occurrence z now hour) \<and>
   (\<forall>ps. timings_known (fst (run ps defaultData))) \<and>
   (\<forall>en u c a d d' r.
      timings_known d \<and> createExperiment en u c a d = (d', r) \<longrightarrow>
      timings_known d' \<and> r \<noteq> Inl RangeError \<and>
      (\<forall>i cb m t.
         r = Inr (Created i cb m t) \<longrightarrow>
         to_key (c_timing cb) \<notin> set object_prototype_keys \<and>
         (target_on_clock (env_zone en) (env_now en) (c_timing cb) \<longrightarrow>
            t = scheduled_time (env_zone en) (env_now en) (c_timing cb)) \<and>
         scheduled_messages d' = scheduled_messages d @
           [\<lparr>m_id = env_uuid2 en, m_experiment_id = i, m_user_id = u, m_send_at = t,
             m_status = ''pending''\<rparr>]))"
proof (intro conjI allI impI)
  fix z :: zone and now :: int
  show "map (\<lambda>t. sendAt_of z now (Some t))
        [''2min'', ''5min'', ''30min'', ''1hr'', ''2hr'', ''4hr'', ''payday''] =
      map (\<lambda>ms. Inr (now + ms))
        [2 * 60 * 1000, 5 * 60 * 1000, 30 * 60 * 1000, 60 * 60 * 1000, 2 * 60 * 60 * 1000,
         4 * 60 * 60 * 1000, 60000]"
    by (simp add: sendAt_of_fixed_offsets sendAt_of_payday)
next
  fix z :: zone and now :: int and timing :: "string option"
  assume "to_key timing \<notin> set object_prototype_keys \<and> target_on_clock z now timing"
  then show "sendAt_of z now timing = Inr (scheduled_time z now timing)"
    using sendAt_of_rule by blast
next
  fix z :: zone and now hour :: int
  assume a: "0 \<le> hour \<and> hour < 24 \<and> on_the_clock z now hour"
  then show "TimeWithinDay (LocalTime z (next_occurrence z now hour)) = MakeTime hour 0 0 0"
    using next_occurrence_reading(1) by blast
  from a show "Day (LocalTime z (next_occurrence z now hour)) =
        (if today_at z now hour \<le> now then Day (LocalTime z now) + 1
         else Day (LocalTime z now))"
    using next_occurrence_reading(2) by blast
next
  fix z :: zone and now hour :: int
  assume "z_offset_of_local z (MakeDate (Day (LocalTime z now) + 1) (MakeTime hour 0 0 0))
        \<le> z_offset_at z now + MakeTime hour 0 0 0"
  then show "now < next_occurrence z now hour"
    by (rule next_occurrence_ahead)
next
  fix ps
  show "timings_known (fst (run ps defaultData))"
    using run_known[OF defaultData_known] .
next
  fix en :: env and u c :: string and a :: attrs and d d' :: db and r :: "js_error + create_result"
  assume a: "timings_known d \<and> createExperiment en u c a d = (d', r)"
  then show "r \<noteq> Inl RangeError"
    using createExperiment_sendAt(1) by blast
  from a show "timings_known d'"
    using createExperiment_known[of d en u c a] by simp
next
  fix en :: env and u c :: string and a :: attrs and d d' :: db and r :: "js_error + create_result"
    and i :: string and cb :: combo and m :: string and t :: int
  assume a: "timings_known d \<and> createExperiment en u c a d = (d', r)"
     and r: "r = Inr (Created i cb m t)"
  have known: "timings_known d" and res: "createExperiment en u c a d = (d', r)"
    using a by simp_all
  note facts = createExperiment_sendAt(2)[OF known res r]
  show "to_key (c_timing cb) \<notin> set object_prototype_keys"
    using facts known_timing_not_inherited by blast
  show "scheduled_messages d' = scheduled_messages d @
           [\<lparr>m_id = env_uuid2 en, m_experiment_id = i, m_user_id = u, m_send_at = t,
             m_status = ''pending''\<rparr>]"
    using facts by blast
  assume clock: "target_on_clock (env_zone en) (env_now en) (c_timing cb)"
  have "sendAt_of (env_zone en) (env_now en) (c_timing cb) =
        Inr (scheduled_time (env_zone en) (env_now en) (c_timing cb))"
    using facts known_timing_not_inherited clock by (intro sendAt_of_rule) blast+
  then show "t = scheduled_time (env_zone en) (env_now en) (c_timing cb)"
    using facts by simp
qed

theorem sendAt_follows_timing_witness:
  "(to_key (Some ''next_evening'') \<notin> set object_prototype_keys \<and>
    target_on_clock summer_zone 0 (Some ''next_evening'')) \<and>
   sendAt_of summer_zone 0 (Some ''next_evening'') = Inr 61200000 \<and>
   (0 \<le> (8::int) \<and> (8::int) < 24 \<and> on_the_clock summer_zone (- 57600000) 8) \<and>
   next_occurrence summer_zone (- 57600000) 8 = 21600000 \<and>
   TimeWithinDay (LocalTime summer_zone 21600000) = MakeTime 8 0 0 0 \<and>
   Day (LocalTime summer_zone 21600000) = Day (LocalTime summer_zone (- 57600000)) + 1 \<and>
   z_offset_of_local summer_zone
       (MakeDate (Day (LocalTime summer_zone (- 57600000)) + 1) (MakeTime 8 0 0 0))
     \<le> z_offset_at summer_zone (- 57600000) + MakeTime 8 0 0 0 \<and>
   - 57600000 < next_occurrence summer_zone (- 57600000) 8 \<and>
   timings_known st_five_sends \<and>
   timings_known defaultData \<and>
   snd (createExperiment evening_env ''u1'' ''paywall_bouncers'' no_attrs defaultData) \<noteq>
     Inl RangeError \<and>
   (\<exists>cb m. snd (createExperiment evening_env ''u1'' ''paywall_bouncers'' no_attrs defaultData) =
             Inr (Created ''e1'' cb m 61200000) \<and>
           c_timing cb = Some ''next_evening'' \<and>
           target_on_clock (env_zone evening_env) (env_now evening_env) (c_timing cb) \<and>
           scheduled_time (env_zone evening_env) (env_now evening_env) (c_timing cb) = 61200000) \<and>
   map m_send_at
     (scheduled_messages
        (fst (createExperiment evening_env ''u1'' ''paywall_bouncers'' no_attrs defaultData))) =
     [61200000]"
proof -
  note t = sendAt_follows_timing
  have h2: "to_key (Some ''next_evening'') \<notin> set object_prototype_keys \<and>
            target_on_clock summer_zone 0 (Some ''next_evening'')"
    by code_simp
  from t h2 have "sendAt_of summer_zone 0 (Some ''next_evening'') =
                  Inr (scheduled_time summer_zone 0 (Some ''next_evening''))"
    by blast
  moreover have "scheduled_time summer_zone 0 (Some ''next_evening'') = 61200000"
    by code_simp
  ultimately have c2: "sendAt_of summer_zone 0 (Some ''next_evening'') = Inr 61200000"
    by simp
  have h3: "0 \<le> (8::int) \<and> (8::int) < 24 \<and> on_the_clock summer_zone (- 57600000) 8"
    by code_simp
  have v3: "next_occurrence summer_zone (- 57600000) 8 = 21600000"
           "today_at summer_zone (- 57600000) 8 \<le> - 57600000"
    by code_simp+
  from t h3 have "TimeWithinDay (LocalTime summer_zone (next_occurrence summer_zone (- 57600000) 8))
                    = MakeTime 8 0 0 0 \<and>
      Day (LocalTime summer_zone (next_occurrence summer_zone (- 57600000) 8)) =
        (if today_at summer_zone (- 57600000) 8 \<le> - 57600000
         then Day (LocalTime summer_zone (- 57600000)) + 1
         else Day (LocalTime summer_zone (- 57600000)))"
    by blast
  then have c3: "TimeWithinDay (LocalTime summer_zone 21600000) = MakeTime 8 0 0 0"
                "Day (LocalTime summer_zone 21600000) = Day (LocalTime summer_zone (- 57600000)) + 1"
    using v3 by simp_all
  have h4: "z_offset_of_local summer_zone
       (MakeDate (Day (LocalTime summer_zone (- 57600000)) + 1) (MakeTime 8 0 0 0))
     \<le> z_offset_at summer_zone (- 57600000) + MakeTime 8 0 0 0"
    by code_simp
  from t h4 have c4: "- 57600000 < next_occurrence summer_zone (- 57600000) 8"
    by blast
  from t have c5: "timings_known (fst (run (five_triggers @ [Dispatch 200000 mock_adapter (\<lambda>k. 200001)])
                                       defaultData))"
    by blast
  then have c5': "timings_known st_five_sends" by (simp add: st_five_sends_def)
  from t have "timings_known (fst (run [] defaultData))" by blast
  then have h6: "timings_known defaultData" by simp
  define d' where "d' = fst (createExperiment evening_env ''u1'' ''paywall_bouncers'' no_attrs defaultData)"
  define r where "r = snd (createExperiment evening_env ''u1'' ''paywall_bouncers'' no_attrs defaultData)"
  define cb where "cb = \<lparr>c_timing = Some ''next_evening'', c_channel = Some ''push'',
          c_lever = Some ''free_value'', c_offer = Some ''free_episode'',
          c_tone = Some ''curious''\<rparr>"
  define msg where "msg = thinking_face @ '' FREE episode waiting... Watch Episode 1 FREE''"
  have ce: "createExperiment evening_env ''u1'' ''paywall_bouncers'' no_attrs defaultData = (d', r)"
    by (simp add: d'_def r_def)
  have rv: "r = Inr (Created ''e1'' cb msg 61200000)"
    unfolding r_def cb_def msg_def by code_simp
  have clock: "target_on_clock (env_zone evening_env) (env_now evening_env) (c_timing cb)"
    unfolding cb_def by code_simp
  from t h6 ce have c6: "timings_known d' \<and> r \<noteq> Inl RangeError \<and>
      (\<forall>i cb m t.
         r = Inr (Created i cb m t) \<longrightarrow>
         to_key (c_timing cb) \<notin> set object_prototype_keys \<and>
         (target_on_clock (env_zone evening_env) (env_now evening_env) (c_timing cb) \<longrightarrow>
            t = scheduled_time (env_zone evening_env) (env_now evening_env) (c_timing cb)) \<and>
         scheduled_messages d' = scheduled_messages defaultData @
           [\<lparr>m_id = env_uuid2 evening_env, m_experiment_id = i, m_user_id = ''u1'', m_send_at = t,
             m_status = ''pending''\<rparr>])"
    by blast
  then have c6a: "r \<noteq> Inl RangeError" by simp
  from c6 rv clock have c6b: "scheduled_time (env_zone evening_env) (env_now evening_env) (c_timing cb) = 61200000"
    by metis
  from c6 rv have "scheduled_messages d' = scheduled_messages defaultData @
           [\<lparr>m_id = env_uuid2 evening_env, m_experiment_id = ''e1'', m_user_id = ''u1'',
             m_send_at = 61200000, m_status = ''pending''\<rparr>]"
    by blast
  then have c6c: "map m_send_at (scheduled_messages d') = [61200000]"
    by (simp add: defaultData_def)
  have c6d: "\<exists>cb m. r = Inr (Created ''e1'' cb m 61200000) \<and>
           c_timing cb = Some ''next_evening'' \<and>
           target_on_clock (env_zone evening_env) (env_now evening_env) (c_timing cb) \<and>
           scheduled_time (env_zone evening_env) (env_now evening_env) (c_timing cb) = 61200000"
    using rv clock c6b by (intro exI[of _ cb] exI[of _ msg]) (simp add: cb_def)
  show ?thesis
    using h2 c2 h3 v3(1) c3 h4 c4 c5' h6 c6a c6d c6c
    unfolding d'_def r_def by blast
qed

end
